theory Spec2Isabelle
  imports Complex_Main "HOL-Library.Sublist"
begin

section \<open>Python strings\<close>

text \<open>
  A text is a Python \<open>str\<close>, modelled as a \<open>string\<close>; a \<open>char\<close> stands for the code point of
  the same number, so the model covers texts over the code points 0 .. 255. The three
  files of the planning directory are \<open>string option\<close> (\<open>None\<close>: the file does not exist),
  each the text that the file holds. The source opens every file in text mode with the
  default \<open>newline=None\<close>: what \<open>f.read()\<close> and \<open>f.readlines()\<close> return is the text of the
  file with every pair CR LF and every other CR turned into a line feed
  (\<open>universal_newlines\<close>), and what \<open>f.write\<close> stores is the text it is given (the
  application runs on Linux, where a line feed is written as a line feed). File-system
  failures (the \<open>except Exception\<close> branches) are not modelled: reads and writes succeed.
\<close>

definition is_space :: "char \<Rightarrow> bool" where
  \<comment> \<open>\<open>str.isspace\<close> and the regular expression class \<open>\s\<close> below code point 256\<close>
  "is_space c = (let n = (of_char c :: nat) in
     (9 \<le> n \<and> n \<le> 13) \<or> (28 \<le> n \<and> n \<le> 32) \<or> n = 133 \<or> n = 160)"

definition is_upper :: "char \<Rightarrow> bool" where
  "is_upper c = (let n = (of_char c :: nat) in
     (65 \<le> n \<and> n \<le> 90) \<or> (192 \<le> n \<and> n \<le> 222 \<and> n \<noteq> 215))"

fun set_bit5 :: "char \<Rightarrow> char" where
  "set_bit5 (Char b0 b1 b2 b3 b4 b5 b6 b7) = Char b0 b1 b2 b3 b4 True b6 b7"

definition lower_char :: "char \<Rightarrow> char" where
  \<comment> \<open>upper-case letters are 32 below their lower-case letter, with bit 5 clear\<close>
  "lower_char c = (if is_upper c then set_bit5 c else c)"

definition lower :: "string \<Rightarrow> string" where
  "lower s = map lower_char s"

definition lstrip :: "string \<Rightarrow> string" where
  "lstrip s = dropWhile is_space s"

definition rstrip :: "string \<Rightarrow> string" where
  "rstrip s = rev (dropWhile is_space (rev s))"

definition strip :: "string \<Rightarrow> string" where
  "strip s = rstrip (lstrip s)"

fun find_sub :: "string \<Rightarrow> string \<Rightarrow> nat option" where
  \<comment> \<open>\<open>s.find(sub)\<close>: the lowest index where \<open>sub\<close> occurs, \<open>None\<close> for \<open>-1\<close>\<close>
  "find_sub sub [] = (if sub = [] then Some 0 else None)"
| "find_sub sub (c # cs) =
     (if prefix sub (c # cs) then Some 0 else map_option Suc (find_sub sub cs))"

definition find_from :: "string \<Rightarrow> string \<Rightarrow> nat \<Rightarrow> nat option" where
  \<comment> \<open>\<open>s.find(sub, start)\<close> for \<open>start \<ge> 0\<close>\<close>
  "find_from sub s start =
     (if length s < start then None
      else map_option (\<lambda>i. i + start) (find_sub sub (drop start s)))"

definition contains :: "string \<Rightarrow> string \<Rightarrow> bool" where
  \<comment> \<open>\<open>sub in s\<close>\<close>
  "contains sub s = (find_sub sub s \<noteq> None)"

function count_sub :: "string \<Rightarrow> string \<Rightarrow> nat" where
  \<comment> \<open>\<open>s.count(sub)\<close>: occurrences taken from the left, without overlap\<close>
  "count_sub sub s =
     (if sub = [] then Suc (length s)
      else case s of
        [] \<Rightarrow> 0
      | c # cs \<Rightarrow> if prefix sub s then Suc (count_sub sub (drop (length sub) s))
                 else count_sub sub cs)"
  by pat_completeness auto
termination
  by (relation "measure (\<lambda>(sub, s). length s)") auto

declare count_sub.simps [simp del]

fun split_nl :: "string \<Rightarrow> string list" where
  \<comment> \<open>\<open>s.split('\n')\<close>: the pieces between line feeds, at least one piece\<close>
  "split_nl [] = [[]]"
| "split_nl (c # cs) =
     (if c = CHR 0x0A then [] # split_nl cs
      else (case split_nl cs of l # ls \<Rightarrow> (c # l) # ls | [] \<Rightarrow> [[c]]))"

fun universal_newlines :: "string \<Rightarrow> string" where
  \<comment> \<open>the translation of a text-mode read: CR LF and CR become a line feed\<close>
  "universal_newlines [] = []"
| "universal_newlines [c] = [if c = CHR 0x0D then CHR 0x0A else c]"
| "universal_newlines (c # d # ds) =
     (if c = CHR 0x0D
      then (if d = CHR 0x0A then CHR 0x0A # universal_newlines ds
            else CHR 0x0A # universal_newlines (d # ds))
      else c # universal_newlines (d # ds))"

definition read_text :: "string \<Rightarrow> string" where
  \<comment> \<open>\<open>f.read()\<close> on a file that holds the text \<open>raw\<close>\<close>
  "read_text raw = universal_newlines raw"

fun split_lines :: "string \<Rightarrow> string list" where
  \<comment> \<open>the lines of a translated text: each keeps its line feed; no empty last line\<close>
  "split_lines [] = []"
| "split_lines (c # cs) =
     (if c = CHR 0x0A then [c] # split_lines cs
      else (case split_lines cs of l # ls \<Rightarrow> (c # l) # ls | [] \<Rightarrow> [[c]]))"

definition readlines :: "string \<Rightarrow> string list" where
  \<comment> \<open>\<open>f.readlines()\<close> on a file that holds the text \<open>raw\<close>\<close>
  "readlines raw = split_lines (universal_newlines raw)"

definition digit_char :: "nat \<Rightarrow> char" where
  "digit_char d = ''0123456789'' ! d"

function str_nat :: "nat \<Rightarrow> string" where
  \<comment> \<open>\<open>str(n)\<close> of a natural number, as an f-string prints it\<close>
  "str_nat n = (if n < 10 then [digit_char n]
                else str_nat (n div 10) @ [digit_char (n mod 10)])"
  by pat_completeness auto
termination
  by (relation "measure id") auto

declare str_nat.simps [simp del]

section \<open>The planning directory and the results of an operation\<close>

datatype doc = TaskPlan | Findings | Progress

text \<open>
  The directory: whether it exists, whether it holds files other than the three documents
  (\<open>os.rmdir\<close> fails then), the content of each document, and the log of the writes
  (\<open>open(path, 'w')\<close>) in the order they happened, the latest first.
\<close>

record files =
  dir_exists :: bool
  other_files :: bool
  task_plan :: "string option"
  findings :: "string option"
  progress :: "string option"
  written :: "doc list"

fun write_file :: "doc \<Rightarrow> string \<Rightarrow> files \<Rightarrow> files" where
  \<comment> \<open>\<open>with open(path, 'w', encoding='utf-8') as f: f.write(text)\<close>: the file holds the
      text as given; a CR in it is turned into a line feed by the next read, not here\<close>
  "write_file TaskPlan text fs = fs\<lparr>task_plan := Some text, written := TaskPlan # written fs\<rparr>"
| "write_file Findings text fs = fs\<lparr>findings := Some text, written := Findings # written fs\<rparr>"
| "write_file Progress text fs = fs\<lparr>progress := Some text, written := Progress # written fs\<rparr>"

text \<open>
  What the operations read from outside: the clock, as \<open>_get_date()\<close> formats it (one
  value for the whole call), the setting \<open>max_plan_length\<close> and the path that
  \<open>_get_planning_dir()\<close> returns.
\<close>

record env =
  get_date :: string
  max_plan_length :: nat
  planning_dir :: string

text \<open>
  An item of the checklist as \<open>_parse_todos_from_plan\<close> returns it, and the data that
  \<open>_get_planning_data\<close> collects (without the task name, the objective and the path,
  which only the display uses).
\<close>

record todo =
  todo_text :: string
  todo_completed :: bool
  todo_phase :: "string option"

record planning_data =
  pd_todos :: "todo list"
  pd_completed :: nat
  pd_total :: nat
  pd_errors :: nat
  pd_exists :: bool
  pd_has_findings :: bool
  pd_has_progress :: bool

text \<open>
  Every operation returns one string. Its first characters are a mark outside the model's
  alphabet: the check mark of a success, the warning sign, the clipboard of a status.
  The mark is the constructor, the rest of the string its argument. \<open>Raw\<close> is a string
  without mark (the text of a document), \<open>Status\<close> the report of \<open>get_status\<close>, which prints
  the numbers of its argument.
\<close>

datatype outcome =
  Success string | Warning string | Failure string | Info string | Raw string
  | Status planning_data

section \<open>Checklist lines\<close>

text \<open>
  The regular expressions of the source, each as the function that decides it. In
  \<open>\s*[-*]\s*\[ \]\<close> the bullet and the bracket are no white space, so each \<open>\s*\<close> can only
  take the whole run of white space in front of them.
\<close>

definition task_prefix :: "string \<Rightarrow> (string \<times> string) option" where
  \<comment> \<open>\<open>(\s*[-*]\s*)\[ \]\<close> matched at the start: group 1 and what follows the bracket\<close>
  "task_prefix line =
     (let ws1 = takeWhile is_space line in
      case dropWhile is_space line of
        [] \<Rightarrow> None
      | b # r \<Rightarrow>
          if b = CHR ''-'' \<or> b = CHR ''*'' then
            (let ws2 = takeWhile is_space r; r' = dropWhile is_space r in
             if prefix ''[ ]'' r' then Some (ws1 @ [b] @ ws2, drop 3 r') else None)
          else None)"

definition is_incomplete_task :: "string \<Rightarrow> bool" where
  \<comment> \<open>\<open>re.match(r'^\s*[-*]\s*\[ \]', line) is not None\<close>\<close>
  "is_incomplete_task line = (task_prefix line \<noteq> None)"

definition task_text_of :: "string \<Rightarrow> string" where
  \<comment> \<open>\<open>re.sub(r'^\s*[-*]\s*\[ \]\s*', '', line).strip()\<close>\<close>
  "task_text_of line =
     (case task_prefix line of
        Some (g, rest) \<Rightarrow> strip (dropWhile is_space rest)
      | None \<Rightarrow> strip line)"

fun check_first_box :: "string \<Rightarrow> string" where
  \<comment> \<open>\<open>re.sub(r'(\s*[-*]\s*)\[ \]', r'\1[x]', line, count=1)\<close>: the leftmost match\<close>
  "check_first_box [] = []"
| "check_first_box (c # cs) =
     (case task_prefix (c # cs) of
        Some (g, rest) \<Rightarrow> g @ ''[x]'' @ rest
      | None \<Rightarrow> c # check_first_box cs)"

definition ws_then_text :: "string \<Rightarrow> string option" where
  \<comment> \<open>\<open>\s+(.+)$\<close> at the start of a piece without line feed: the group. When only white
      space is left, \<open>\s+\<close> gives its last character to the group.\<close>
  "ws_then_text r =
     (let ws = takeWhile is_space r; t = dropWhile is_space r in
      if ws = [] then None
      else if t \<noteq> [] then Some t
      else if 2 \<le> length ws then Some [last ws]
      else None)"

definition phase_match :: "string \<Rightarrow> string option" where
  \<comment> \<open>\<open>re.match(r'^###\s+(.+)$', line)\<close>: group 1\<close>
  "phase_match line = (if prefix ''###'' line then ws_then_text (drop 3 line) else None)"

definition todo_match :: "string \<Rightarrow> (char \<times> string) option" where
  \<comment> \<open>\<open>re.match(r'^-\s+\[([ x])\]\s+(.+)$', line)\<close>: groups 1 and 2\<close>
  "todo_match line =
     (case line of
        [] \<Rightarrow> None
      | b # r \<Rightarrow>
          if b = CHR ''-'' \<and> takeWhile is_space r \<noteq> [] then
            (case dropWhile is_space r of
               o1 # m # c1 # r' \<Rightarrow>
                 if o1 = CHR ''['' \<and> (m = CHR '' '' \<or> m = CHR ''x'') \<and> c1 = CHR '']''
                 then map_option (\<lambda>t. (m, t)) (ws_then_text r')
                 else None
             | _ \<Rightarrow> None)
          else None)"

fun parse_lines :: "string option \<Rightarrow> string list \<Rightarrow> todo list" where
  \<comment> \<open>the loop of \<open>_parse_todos_from_plan\<close>, \<open>current_phase\<close> as its first argument\<close>
  "parse_lines current_phase [] = []"
| "parse_lines current_phase (line # ls) =
     (let current_phase = (case phase_match line of
                             Some p \<Rightarrow> Some p | None \<Rightarrow> current_phase) in
      case todo_match line of
        Some (m, t) \<Rightarrow>
          \<lparr>todo_text = t, todo_completed = (m = CHR ''x''), todo_phase = current_phase\<rparr>
            # parse_lines current_phase ls
      | None \<Rightarrow> parse_lines current_phase ls)"

definition parse_todos_from_plan :: "string \<Rightarrow> todo list" where
  "parse_todos_from_plan content = parse_lines None (split_nl content)"

section \<open>Marking an item complete\<close>

text \<open>
  \<open>difflib.SequenceMatcher(None, a, b).ratio()\<close> is the library's; the model takes it as
  the parameter \<open>ratio\<close>, a rational number for the float.
\<close>

fun exact_match :: "string list \<Rightarrow> string \<Rightarrow> nat option" where
  \<comment> \<open>the first loop: the index of the first unchecked line whose text is the target\<close>
  "exact_match [] phase_or_item = None"
| "exact_match (line # ls) phase_or_item =
     (if is_incomplete_task line \<and> task_text_of line = strip phase_or_item then Some 0
      else map_option Suc (exact_match ls phase_or_item))"

fun candidates_from ::
  "(string \<Rightarrow> string \<Rightarrow> rat) \<Rightarrow> string \<Rightarrow> nat \<Rightarrow> string list \<Rightarrow> (nat \<times> rat \<times> string) list" where
  \<comment> \<open>the second loop, from index \<open>i\<close> on\<close>
  "candidates_from ratio target i [] = []"
| "candidates_from ratio target i (line # ls) =
     (if \<not> is_incomplete_task line then candidates_from ratio target (Suc i) ls
      else
        (let task_text = task_text_of line; task_lower = lower task_text in
         if contains target task_lower
         then (i, 9 / 10, task_text) # candidates_from ratio target (Suc i) ls
         else if ratio target task_lower > 8 / 10
         then (i, ratio target task_lower, task_text) # candidates_from ratio target (Suc i) ls
         else candidates_from ratio target (Suc i) ls))"

definition sort_reverse :: "('a \<Rightarrow> rat) \<Rightarrow> 'a list \<Rightarrow> 'a list" where
  \<comment> \<open>\<open>xs.sort(key=f, reverse=True)\<close>: the list is reversed, sorted stably, reversed again\<close>
  "sort_reverse f xs = rev (sort_key f (rev xs))"

definition best_match :: "(string \<Rightarrow> string \<Rightarrow> rat) \<Rightarrow> string list \<Rightarrow> string \<Rightarrow> nat option" where
  \<comment> \<open>\<open>best_match_idx\<close> after both searches, \<open>None\<close> for \<open>-1\<close>\<close>
  "best_match ratio lines phase_or_item =
     (let target = lower (strip phase_or_item) in
      case exact_match lines phase_or_item of
        Some i \<Rightarrow> Some i
      | None \<Rightarrow>
          (case sort_reverse (\<lambda>x. fst (snd x)) (candidates_from ratio target 0 lines) of
             [] \<Rightarrow> None
           | c # cs \<Rightarrow> Some (fst c)))"

definition mark_complete ::
  "(string \<Rightarrow> string \<Rightarrow> rat) \<Rightarrow> string \<Rightarrow> files \<Rightarrow> outcome \<times> files" where
  "mark_complete ratio phase_or_item fs =
     (case task_plan fs of
        None \<Rightarrow> (Warning ''No task_plan.md found.'', fs)
      | Some raw \<Rightarrow>
          (let lines = readlines raw in
           case best_match ratio lines phase_or_item of
             Some i \<Rightarrow>
               (let line = lines ! i;
                    new_line = check_first_box line;
                    lines' = lines[i := new_line]
                in (Success (''Marked as complete: '' @ task_text_of line),
                    write_file TaskPlan (concat lines') fs))
           | None \<Rightarrow>
               (Warning (''Item '' @ [CHR 0x27] @ phase_or_item @ [CHR 0x27]
                           @ '' not found (or already completed)''), fs)))"

section \<open>Templates and \<open>create_plan\<close>\<close>

definition TASK_PLAN_TEMPLATE :: "string \<Rightarrow> string \<Rightarrow> string \<Rightarrow> string \<Rightarrow> string" where
  "TASK_PLAN_TEMPLATE task_name date objective phases =
     ''# Task Plan: '' @ task_name @ ''\<newline>Created: '' @ date
     @ ''\<newline>Status: In Progress\<newline>\<newline>## Objective\<newline>'' @ objective
     @ ''\<newline>\<newline>## Phases\<newline>'' @ phases
     @ ''\<newline>\<newline>## Decisions\<newline><!-- Record key decisions here -->\<newline>''
     @ ''\<newline>## Error Log\<newline><!-- Log any errors or failed attempts here -->\<newline>''
     @ ''\<newline>## Notes\<newline><!-- Additional notes and observations -->\<newline>''"

definition FINDINGS_TEMPLATE :: "string \<Rightarrow> string \<Rightarrow> string" where
  "FINDINGS_TEMPLATE task_name date =
     ''# Findings: '' @ task_name @ ''\<newline>Created: '' @ date
     @ ''\<newline>\<newline>## Research Notes\<newline>''
     @ ''<!-- Store research and findings here instead of context -->\<newline>''
     @ ''\<newline>## Technical Decisions\<newline>''
     @ ''<!-- Record technical choices and rationale -->\<newline>''
     @ ''\<newline>## Key Discoveries\<newline>\<newline>## References\<newline>''
     @ ''\<newline>## Code Snippets\<newline><!-- Important code patterns found -->\<newline>''"

definition PROGRESS_TEMPLATE :: "string \<Rightarrow> string \<Rightarrow> string" where
  "PROGRESS_TEMPLATE task_name date =
     ''# Progress Log: '' @ task_name @ ''\<newline>Created: '' @ date
     @ ''\<newline>\<newline>## Status Check\<newline><!-- 5-Question Check when resuming -->\<newline>''
     @ ''1. What is the current specific goal?\<newline>''
     @ ''2. What has been done so far?\<newline>''
     @ ''3. What is the immediate next step?\<newline>''
     @ ''4. What information is missing?\<newline>''
     @ ''5. Are there any errors or blockers?\<newline>''
     @ ''\<newline>## Session Log\<newline>\<newline>### '' @ date
     @ ''\<newline>- Started task\<newline>- Created planning files\<newline>''
     @ ''\<newline>## Test Results\<newline><!-- Document test outcomes here -->\<newline>''
     @ ''| Test | Result | Notes |\<newline>|------|--------|-------|\<newline>''
     @ ''\<newline>## Next Steps\<newline>''"

definition default_phases :: string where
  "default_phases =
     ''### Phase 1: Planning\<newline>- [ ] Define requirements\<newline>''
     @ ''- [ ] Identify dependencies\<newline>- [ ] Create initial plan\<newline>''"

fun phases_loop :: "nat \<Rightarrow> string list \<Rightarrow> string" where
  \<comment> \<open>\<open>for i, phase in enumerate(phases, 1): phases_content += ...\<close>\<close>
  "phases_loop i [] = []"
| "phases_loop i (phase # ps) =
     ''### Phase '' @ str_nat i @ '': '' @ phase @ ''\<newline>- [ ] \<newline>\<newline>''
     @ phases_loop (Suc i) ps"

definition phases_content :: "string list \<Rightarrow> string" where
  \<comment> \<open>\<open>if not phases\<close>: no list and the empty list take the default\<close>
  "phases_content phases = (if phases = [] then default_phases else strip (phases_loop 1 phases))"

definition create_plan :: "env \<Rightarrow> string \<Rightarrow> string \<Rightarrow> string list \<Rightarrow> files \<Rightarrow> outcome \<times> files" where
  "create_plan e task_name objective phases fs =
     (let fs1 = fs\<lparr>dir_exists := True\<rparr>;
          fs2 = write_file TaskPlan
                  (TASK_PLAN_TEMPLATE task_name (get_date e) objective (phases_content phases)) fs1;
          fs3 = write_file Findings (FINDINGS_TEMPLATE task_name (get_date e)) fs2;
          fs4 = write_file Progress (PROGRESS_TEMPLATE task_name (get_date e)) fs3
      in (Success (''Created planning files in '' @ planning_dir e @ ''\<newline>\<newline>Task: ''
                     @ task_name @ ''\<newline>Objective: '' @ objective), fs4))"

section \<open>\<open>update_plan\<close>\<close>

definition update_plan_text :: "string \<Rightarrow> string \<Rightarrow> string \<Rightarrow> bool \<times> string" where
  \<comment> \<open>the new content, and whether the marker was found\<close>
  "update_plan_text section content plan_content =
     (let section_marker = ''## '' @ section in
      case find_sub section_marker plan_content of
        Some idx \<Rightarrow>
          (let section_start = idx + length section_marker in
           case find_from ''\<newline>## '' plan_content section_start of
             None \<Rightarrow>
               (True, take section_start plan_content @ ''\<newline>'' @ content @ ''\<newline>'')
           | Some next_section \<Rightarrow>
               (True, take section_start plan_content @ ''\<newline>'' @ content @ ''\<newline>''
                        @ drop next_section plan_content))
      | None \<Rightarrow>
          (False, rstrip plan_content @ ''\<newline>\<newline>## '' @ section @ ''\<newline>''
                    @ content @ ''\<newline>''))"

definition update_plan :: "string \<Rightarrow> string \<Rightarrow> files \<Rightarrow> outcome \<times> files" where
  "update_plan section content fs =
     (case task_plan fs of
        None \<Rightarrow> (Warning ''No task_plan.md found.'', fs)
      | Some raw \<Rightarrow>
          (case update_plan_text section content (read_text raw) of
             (True, new_content) \<Rightarrow>
               (Success (''Updated section '' @ [CHR 0x27] @ section @ [CHR 0x27]),
                write_file TaskPlan new_content fs)
           | (False, new_content) \<Rightarrow>
               (Success (''Added new section '' @ [CHR 0x27] @ section @ [CHR 0x27]),
                write_file TaskPlan new_content fs)))"

section \<open>\<open>add_todo\<close>\<close>

fun dot_star_then :: "string \<Rightarrow> string \<Rightarrow> bool" where
  \<comment> \<open>\<open>.*\<close> followed by the escaped phase, letters compared without case\<close>
  "dot_star_then p [] = (p = [])"
| "dot_star_then p (c # cs) =
     (prefix (lower p) (lower (c # cs)) \<or> (c \<noteq> CHR 0x0A \<and> dot_star_then p cs))"

fun ws_plus_then :: "string \<Rightarrow> string \<Rightarrow> bool" where
  \<comment> \<open>\<open>\s+.*\<close> followed by the phase: \<open>\s+\<close> takes one character or more of the run\<close>
  "ws_plus_then p [] = False"
| "ws_plus_then p (c # cs) = (is_space c \<and> (dot_star_then p cs \<or> ws_plus_then p cs))"

fun heading_search :: "string \<Rightarrow> bool \<Rightarrow> string \<Rightarrow> nat option" where
  \<comment> \<open>\<open>re.compile(rf"^###\s+.*{re.escape(phase)}", re.MULTILINE | re.IGNORECASE)
      .search(content)\<close>: the start of the leftmost match. The flag says whether the
      position is the start of a line.\<close>
  "heading_search p bol [] = None"
| "heading_search p bol (c # cs) =
     (if bol \<and> prefix ''###'' (c # cs) \<and> ws_plus_then p (drop 3 (c # cs)) then Some 0
      else map_option Suc (heading_search p (c = CHR 0x0A) cs))"

fun py_min :: "nat list \<Rightarrow> nat option" where
  \<comment> \<open>\<open>min(...)\<close>: \<open>None\<close> is the \<open>ValueError\<close> of an empty sequence\<close>
  "py_min [] = None"
| "py_min (x # xs) = Some (fold min xs x)"

definition add_todo_text :: "string \<Rightarrow> string option \<Rightarrow> string \<Rightarrow> string option" where
  "add_todo_text item phase_arg content =
     (let new_item = ''- [ ] '' @ item in
      case (if phase_arg = Some [] then None else phase_arg) of
        Some ph \<Rightarrow>
          (let phase_marker = ''### '' @ ph;
               phase_start = (case find_sub phase_marker content of
                                Some i \<Rightarrow> Some i
                              | None \<Rightarrow> heading_search ph True content) in
           case phase_start of
             Some st \<Rightarrow>
               (let next_section = find_from ''\<newline>###'' content (st + 1);
                    next_h2 = find_from ''\<newline>## '' content (st + 1);
                    possible_ends = List.map_filter id [next_section, next_h2];
                    insert_pos = (case py_min possible_ends of
                                    Some m \<Rightarrow> m | None \<Rightarrow> length content)
                in Some (rstrip (take insert_pos content) @ ''\<newline>'' @ new_item @ ''\<newline>''
                           @ drop insert_pos content))
           | None \<Rightarrow>
               Some (rstrip content @ ''\<newline>\<newline>### '' @ ph @ ''\<newline>'' @ new_item
                       @ ''\<newline>''))
      | None \<Rightarrow>
          if contains ''## Phases'' content then
            (let notes_pos = find_sub ''## Notes'' content;
                 error_pos = find_sub ''## Error Log'' content in
             case py_min (filter (\<lambda>p. p > 0)
                            (List.map_filter id [notes_pos, error_pos, Some (length content)])) of
               None \<Rightarrow> None
             | Some insert_pos \<Rightarrow>
                 Some (rstrip (take insert_pos content) @ ''\<newline>'' @ new_item
                         @ ''\<newline>\<newline>'' @ drop insert_pos content))
          else Some (rstrip content @ ''\<newline>\<newline>## Tasks\<newline>'' @ new_item @ ''\<newline>''))"

definition add_todo :: "string \<Rightarrow> string option \<Rightarrow> files \<Rightarrow> outcome \<times> files" where
  "add_todo item phase_arg fs =
     (case task_plan fs of
        None \<Rightarrow> (Warning ''No task_plan.md found.'', fs)
      | Some raw \<Rightarrow>
          (case add_todo_text item phase_arg (read_text raw) of
             None \<Rightarrow> (Failure ''Error: min() arg is an empty sequence'', fs)
           | Some content' \<Rightarrow>
               (Success (''Added todo: '' @ item
                           @ (case phase_arg of
                                None \<Rightarrow> []
                              | Some ph \<Rightarrow> if ph = [] then [] else '' (Phase: '' @ ph @ '')'')),
                write_file TaskPlan content' fs)))"

section \<open>\<open>save_finding\<close>, \<open>log_progress\<close>, \<open>log_error\<close>\<close>

definition save_finding_text :: "env \<Rightarrow> string \<Rightarrow> string \<Rightarrow> string \<Rightarrow> string \<Rightarrow> string" where
  "save_finding_text e title content category findings_content =
     (let timestamp = get_date e;
          new_finding = ''\<newline>### '' @ title @ ''\<newline>*'' @ timestamp @ ''*\<newline>\<newline>''
                          @ content @ ''\<newline>'';
          category_marker = ''## '' @ category in
      case find_sub category_marker findings_content of
        Some idx \<Rightarrow>
          (let category_pos = idx + length category_marker in
           case find_from ''\<newline>## '' findings_content category_pos of
             None \<Rightarrow> rstrip findings_content @ new_finding
           | Some next_h2 \<Rightarrow>
               rstrip (take next_h2 findings_content) @ new_finding @ ''\<newline>''
                 @ drop next_h2 findings_content)
      | None \<Rightarrow> rstrip findings_content @ ''\<newline>\<newline>## '' @ category @ new_finding)"

definition save_finding :: "env \<Rightarrow> string \<Rightarrow> string \<Rightarrow> string \<Rightarrow> files \<Rightarrow> outcome \<times> files" where
  "save_finding e title content category fs =
     (let fs1 = (case findings fs of
                   None \<Rightarrow> write_file Findings (FINDINGS_TEMPLATE ''Task'' (get_date e))
                             (fs\<lparr>dir_exists := True\<rparr>)
                 | Some c \<Rightarrow> fs);
          findings_content = (case findings fs1 of Some raw \<Rightarrow> read_text raw | None \<Rightarrow> [])
      in (Success (''Saved finding: '' @ [CHR 0x27] @ title @ [CHR 0x27]),
          write_file Findings (save_finding_text e title content category findings_content) fs1))"

definition log_progress_text :: "env \<Rightarrow> string \<Rightarrow> bool \<Rightarrow> string \<Rightarrow> string" where
  "log_progress_text e entry include_timestamp content =
     (let timestamp = (if include_timestamp then ''['' @ get_date e @ ''] '' else []);
          new_entry = ''- '' @ timestamp @ entry in
      case find_sub ''## Session Log'' content of
        Some idx \<Rightarrow>
          (let session_pos = idx + length ''## Session Log'' in
           take session_pos content @ ''\<newline>'' @ new_entry @ drop session_pos content)
      | None \<Rightarrow> rstrip content @ ''\<newline>\<newline>## Session Log\<newline>'' @ new_entry @ ''\<newline>'')"

definition log_progress :: "env \<Rightarrow> string \<Rightarrow> bool \<Rightarrow> files \<Rightarrow> outcome \<times> files" where
  "log_progress e entry include_timestamp fs =
     (let fs1 = (case progress fs of
                   None \<Rightarrow> write_file Progress (PROGRESS_TEMPLATE ''Task'' (get_date e))
                             (fs\<lparr>dir_exists := True\<rparr>)
                 | Some c \<Rightarrow> fs);
          content = (case progress fs1 of Some raw \<Rightarrow> read_text raw | None \<Rightarrow> [])
      in (Success (''Logged: '' @ entry),
          write_file Progress (log_progress_text e entry include_timestamp content) fs1))"

definition error_entry_of :: "env \<Rightarrow> string \<Rightarrow> string \<Rightarrow> string" where
  "error_entry_of e error context =
     ''\<newline>### Error at '' @ get_date e @ ''\<newline>**Error:** '' @ error @ ''\<newline>''
     @ (if context \<noteq> [] then ''**Context:** '' @ context @ ''\<newline>'' else [])"

definition log_error_text :: "env \<Rightarrow> string \<Rightarrow> string \<Rightarrow> string \<Rightarrow> string" where
  "log_error_text e error context content =
     (let error_entry = error_entry_of e error context in
      case find_sub ''## Error Log'' content of
        Some idx \<Rightarrow>
          (let error_pos = idx + length ''## Error Log'' in
           case find_from ''\<newline>## '' content error_pos of
             None \<Rightarrow> rstrip content @ error_entry
           | Some next_h2 \<Rightarrow>
               rstrip (take next_h2 content) @ error_entry @ ''\<newline>'' @ drop next_h2 content)
      | None \<Rightarrow> rstrip content @ ''\<newline>\<newline>## Error Log'' @ error_entry)"

definition log_error :: "env \<Rightarrow> string \<Rightarrow> string \<Rightarrow> files \<Rightarrow> outcome \<times> files" where
  "log_error e error context fs =
     (case task_plan fs of
        None \<Rightarrow> (Warning ''No task_plan.md found.'', fs)
      | Some raw \<Rightarrow>
          (let fs1 = write_file TaskPlan (log_error_text e error context (read_text raw)) fs;
               fs2 = snd (log_progress e (''ERROR: '' @ error) True fs1)
           in (Warning (''Logged error: '' @ error), fs2)))"

section \<open>Status, integrity, cleanup\<close>

definition get_planning_data :: "files \<Rightarrow> planning_data" where
  \<comment> \<open>\<open>_get_planning_data\<close>\<close>
  "get_planning_data fs =
     (case task_plan fs of
        None \<Rightarrow>
          \<lparr>pd_todos = [], pd_completed = 0, pd_total = 0, pd_errors = 0, pd_exists = False,
           pd_has_findings = (findings fs \<noteq> None), pd_has_progress = (progress fs \<noteq> None)\<rparr>
      | Some raw \<Rightarrow>
          (let content = read_text raw;
               todos = parse_todos_from_plan content in
           \<lparr>pd_todos = todos,
            pd_completed = length (filter todo_completed todos),
            pd_total = length todos,
            pd_errors = count_sub ''### Error at'' content,
            pd_exists = True,
            pd_has_findings = (findings fs \<noteq> None),
            pd_has_progress = (progress fs \<noteq> None)\<rparr>))"

definition get_status :: "files \<Rightarrow> outcome" where
  "get_status fs =
     (let data = get_planning_data fs in
      if \<not> pd_exists data then Info ''No active planning session. Use create_plan to start.''
      else Status data)"

fun join :: "string \<Rightarrow> string list \<Rightarrow> string" where
  \<comment> \<open>\<open>sep.join(xs)\<close>\<close>
  "join sep [] = []"
| "join sep [x] = x"
| "join sep (x # y # ys) = x @ sep @ join sep (y # ys)"

definition cleanup_plan :: "files \<Rightarrow> outcome \<times> files" where
  "cleanup_plan fs =
     (if \<not> dir_exists fs then (Warning ''No planning directory.'', fs)
      else
        (let files_removed =
               (if task_plan fs \<noteq> None then [''task_plan.md''] else [])
               @ (if findings fs \<noteq> None then [''findings.md''] else [])
               @ (if progress fs \<noteq> None then [''progress.md''] else []);
             fs1 = fs\<lparr>task_plan := None, findings := None, progress := None\<rparr>
         in if other_files fs
            then (Success (''Cleaned up: '' @ join '', '' files_removed @ '' (directory kept)''),
                  fs1)
            else (Success (''Cleaned up: '' @ join '', '' files_removed),
                  fs1\<lparr>dir_exists := False\<rparr>)))"

definition check_plan_integrity :: "files \<Rightarrow> outcome" where
  "check_plan_integrity fs =
     (let data = get_planning_data fs in
      if \<not> pd_exists data then Warning ''No plan found.''
      else
        (let pending = pd_total data - pd_completed data;
             issues =
               (if \<not> pd_has_findings data then [''- Missing findings.md''] else [])
               @ (if \<not> pd_has_progress data then [''- Missing progress.md''] else [])
               @ (if pending > 0
                  then [''- '' @ str_nat pending @ '' tasks pending in task_plan.md''] else [])
               @ (case progress fs of
                    None \<Rightarrow> []
                  | Some raw \<Rightarrow>
                      if \<not> contains ''- '' (read_text raw)
                      then [''- progress.md seems empty (no bullet points)''] else [])
         in if issues = []
            then Success (''Plan Integrity Check Passed!\<newline>- All files present\<newline>- All ''
                            @ str_nat (pd_total data)
                            @ '' tasks completed\<newline>- Progress logged'')
            else Warning (''Plan Incomplete / Issues Found:\<newline>'' @ join ''\<newline>'' issues)))"

section \<open>Reading a document\<close>

definition truncate_text :: "env \<Rightarrow> string \<Rightarrow> string" where
  \<comment> \<open>\<open>_truncate\<close>: \<open>maxlength = self.get_setting("max_plan_length") or 4000\<close>\<close>
  "truncate_text e text =
     (let maxlength = (if max_plan_length e = 0 then 4000 else max_plan_length e) in
      if length text > maxlength
      then take maxlength text @ [CHR 0x0A] @ ''... (truncated to '' @ str_nat maxlength
             @ '' characters)''
      else text)"

definition read_plan :: "env \<Rightarrow> files \<Rightarrow> int \<Rightarrow> outcome" where
  "read_plan e fs start_char =
     (case task_plan fs of
        None \<Rightarrow> Warning ''No task_plan.md found. Use create_plan to start.''
      | Some raw \<Rightarrow>
          (let content = read_text raw in
           if start_char > 0 then
             (if start_char \<ge> int (length content) then Warning ''End of file reached.''
              else Raw (truncate_text e (drop (nat start_char) content)))
           else Raw (truncate_text e content)))"

definition read_findings :: "env \<Rightarrow> files \<Rightarrow> int \<Rightarrow> outcome" where
  "read_findings e fs start_char =
     (case findings fs of
        None \<Rightarrow> Warning ''No findings.md found.''
      | Some raw \<Rightarrow>
          (let content = read_text raw in
           if start_char > 0 then
             (if start_char \<ge> int (length content) then Warning ''End of file reached.''
              else Raw (truncate_text e (drop (nat start_char) content)))
           else Raw (truncate_text e content)))"

section \<open>Notions used in the statements\<close>

abbreviation nl :: char where
  "nl \<equiv> CHR 0x0A"

definition line_ok :: "string \<Rightarrow> bool" where
  \<comment> \<open>a line as \<open>readlines\<close> yields it: not empty, a line feed at its end only\<close>
  "line_ok l = (l \<noteq> [] \<and> nl \<notin> set (butlast l))"

fun lines_ok :: "string list \<Rightarrow> bool" where
  \<comment> \<open>every line but the last ends with its line feed\<close>
  "lines_ok [] = True"
| "lines_ok [l] = line_ok l"
| "lines_ok (l # l' # ls) = (line_ok l \<and> last l = nl \<and> lines_ok (l' # ls))"

definition is_exact :: "string \<Rightarrow> string \<Rightarrow> bool" where
  \<comment> \<open>an unchecked line whose trimmed text is the trimmed target\<close>
  "is_exact item line = (is_incomplete_task line \<and> task_text_of line = strip item)"

definition score_of :: "(string \<Rightarrow> string \<Rightarrow> rat) \<Rightarrow> string \<Rightarrow> string \<Rightarrow> rat option" where
  \<comment> \<open>the score of a line as a candidate: 0.9 for an unchecked line whose lower-cased text
      contains the target, the similarity ratio for another unchecked line when it is
      above 0.8, none otherwise\<close>
  "score_of ratio target line =
     (if \<not> is_incomplete_task line then None
      else if contains target (lower (task_text_of line)) then Some (9 / 10)
      else if 8 / 10 < ratio target (lower (task_text_of line))
      then Some (ratio target (lower (task_text_of line)))
      else None)"

definition zero_ratio :: "string \<Rightarrow> string \<Rightarrow> rat" where
  \<comment> \<open>a similarity for the examples in which the target is found before any ratio counts\<close>
  "zero_ratio a b = 0"

definition fix_bug_plan :: string where
  "fix_bug_plan = ''## Phases\<newline>- [ ] Fix bug\<newline>- [ ] Fix bug in parser\<newline>''"

definition fix_bug_files :: files where
  "fix_bug_files = \<lparr>dir_exists = True, other_files = False, task_plan = Some fix_bug_plan,
     findings = None, progress = None, written = []\<rparr>"

definition budget :: "env \<Rightarrow> nat" where
  "budget e = (if max_plan_length e = 0 then 4000 else max_plan_length e)"

definition notice :: "nat \<Rightarrow> string" where
  "notice b = [CHR 0x0A] @ ''... (truncated to '' @ str_nat b @ '' characters)''"

definition read_result :: "env \<Rightarrow> string \<Rightarrow> int \<Rightarrow> outcome" where
  \<comment> \<open>the document from the offset on, cut to the budget, the notice added when cut\<close>
  "read_result e content off =
     (let rest = drop (nat off) content in
      if budget e < length rest then Raw (take (budget e) rest @ notice (budget e))
      else Raw rest)"

definition star_plan :: string where
  "star_plan = ''## Phases\<newline>  * [ ] Fix bug\<newline>- [ ] Other\<newline>''"

definition star_files :: files where
  "star_files = \<lparr>dir_exists = True, other_files = False, task_plan = Some star_plan,
     findings = None, progress = None, written = []\<rparr>"

definition chomp :: "string \<Rightarrow> string" where
  \<comment> \<open>a line of \<open>readlines\<close> without its line feed, as \<open>split('\n')\<close> yields it\<close>
  "chomp l = (if l \<noteq> [] \<and> last l = nl then butlast l else l)"

definition indented_plan :: string where
  "indented_plan =
     ''### Phase 1\<newline>  - [ ] Indented\<newline>* [ ] Starred\<newline>- [ ] \<newline>- [ ] Plain\<newline>''"

definition indented_files :: files where
  "indented_files = \<lparr>dir_exists = True, other_files = False, task_plan = Some indented_plan,
     findings = None, progress = None, written = []\<rparr>"

definition empty_dir :: files where
  "empty_dir = \<lparr>dir_exists = False, other_files = False, task_plan = None, findings = None,
     progress = None, written = []\<rparr>"

definition scenario_env :: env where
  "scenario_env = \<lparr>get_date = ''2026-01-01 10:00'', max_plan_length = 4000,
     planning_dir = ''/tmp/plan''\<rparr>"

definition scenario_created :: files where
  "scenario_created =
     snd (create_plan scenario_env ''Refactor'' ''Speed up parser''
            [''Investigate'', ''Implement''] empty_dir)"

definition scenario_added :: files where
  "scenario_added = snd (add_todo ''Profile hotspots'' (Some ''Investigate'') scenario_created)"

definition scenario_marked :: files where
  "scenario_marked = snd (mark_complete zero_ratio ''Profile hotspots'' scenario_added)"

definition phase_block :: "nat \<times> string \<Rightarrow> string" where
  \<comment> \<open>what \<open>create_plan\<close> writes for the phase of a number and a name\<close>
  "phase_block = (\<lambda>(i, ph). ''### Phase '' @ str_nat i @ '': '' @ ph @ ''\<newline>- [ ] \<newline>\<newline>'')"

fun iprefix :: "string \<Rightarrow> string \<Rightarrow> bool" where
  \<comment> \<open>the first string is a prefix of the second, letters compared without case\<close>
  "iprefix [] s = True"
| "iprefix (a # p) [] = False"
| "iprefix (a # p) (c # s) = (lower_char a = lower_char c \<and> iprefix p s)"

definition notes_doc :: string where
  "notes_doc = ''# Task\<newline>\<newline>## Notes\<newline>keep me\<newline>''"

definition notes_files :: files where
  "notes_files = \<lparr>dir_exists = True, other_files = False, task_plan = Some notes_doc,
     findings = Some notes_doc, progress = None, written = []\<rparr>"

text \<open>
  The operations that \<open>get_tools\<close> offers, with their arguments, and the call of one of them.
\<close>

datatype operation =
    CreatePlan string string "string list"
  | ReadPlan int
  | UpdatePlan string string
  | MarkComplete string
  | AddTodo string "string option"
  | SaveFinding string string string
  | ReadFindings int
  | LogProgress string bool
  | LogError string string
  | GetStatus
  | CheckPlanIntegrity
  | CleanupPlan

fun run :: "(string \<Rightarrow> string \<Rightarrow> rat) \<Rightarrow> env \<Rightarrow> operation \<Rightarrow> files \<Rightarrow> outcome \<times> files" where
  "run ratio e (CreatePlan task_name objective phases) fs = create_plan e task_name objective phases fs"
| "run ratio e (ReadPlan start_char) fs = (read_plan e fs start_char, fs)"
| "run ratio e (UpdatePlan section content) fs = update_plan section content fs"
| "run ratio e (MarkComplete phase_or_item) fs = mark_complete ratio phase_or_item fs"
| "run ratio e (AddTodo item phase_arg) fs = add_todo item phase_arg fs"
| "run ratio e (SaveFinding title content category) fs = save_finding e title content category fs"
| "run ratio e (ReadFindings start_char) fs = (read_findings e fs start_char, fs)"
| "run ratio e (LogProgress entry include_timestamp) fs = log_progress e entry include_timestamp fs"
| "run ratio e (LogError error context) fs = log_error e error context fs"
| "run ratio e GetStatus fs = (get_status fs, fs)"
| "run ratio e CheckPlanIntegrity fs = (check_plan_integrity fs, fs)"
| "run ratio e CleanupPlan fs = cleanup_plan fs"

fun is_create :: "operation \<Rightarrow> bool" where
  "is_create (CreatePlan task_name objective phases) = True"
| "is_create other = False"

fun needs_plan :: "operation \<Rightarrow> bool" where
  \<comment> \<open>the operations that start with the test \<open>os.path.exists(plan_path)\<close> and return\<close>
  "needs_plan (UpdatePlan section content) = True"
| "needs_plan (MarkComplete phase_or_item) = True"
| "needs_plan (AddTodo item phase_arg) = True"
| "needs_plan (LogError error context) = True"
| "needs_plan other = False"

fun target_of :: "operation \<Rightarrow> doc option" where
  \<comment> \<open>the document that an operation creates from its template when it is absent\<close>
  "target_of (SaveFinding title content category) = Some Findings"
| "target_of (LogProgress entry include_timestamp) = Some Progress"
| "target_of (LogError error context) = Some Progress"
| "target_of other = None"

fun doc_text :: "doc \<Rightarrow> files \<Rightarrow> string option" where
  "doc_text TaskPlan fs = task_plan fs"
| "doc_text Findings fs = findings fs"
| "doc_text Progress fs = progress fs"

definition inserted_at :: "string \<Rightarrow> nat \<Rightarrow> string \<Rightarrow> string \<Rightarrow> bool" where
  \<comment> \<open>the new text is the old one with a fragment put in at a position, after the white
      space in front of that position was trimmed\<close>
  "inserted_at old p frag new =
     (p \<le> length old \<and> frag \<noteq> [] \<and> new = rstrip (take p old) @ frag @ drop p old)"

definition padded_doc :: string where
  "padded_doc = ''x'' @ replicate 10 nl"

abbreviation cr :: char where
  "cr \<equiv> CHR 0x0D"

definition item_of :: "string \<Rightarrow> (bool \<times> string) option" where
  \<comment> \<open>the completion flag and the text of a line that \<open>todo_match\<close> accepts\<close>
  "item_of line = map_option (\<lambda>(m, t). (m = CHR ''x'', t)) (todo_match line)"

definition blank_plan :: string where
  "blank_plan = ''## Phases\<newline>- [ ]  \<newline>''"

definition blank_files :: files where
  "blank_files = \<lparr>dir_exists = True, other_files = False, task_plan = Some blank_plan,
     findings = None, progress = None, written = []\<rparr>"

definition crlf_plan :: string where
  \<comment> \<open>a document whose lines end with CR LF\<close>
  "crlf_plan = ''# T'' @ [cr, nl] @ ''- [ ] keep'' @ [cr, nl] @ ''- [ ] c'' @ [cr, nl]"

definition crlf_files :: files where
  "crlf_files = \<lparr>dir_exists = True, other_files = False, task_plan = Some crlf_plan,
     findings = None, progress = None, written = []\<rparr>"

definition add_todo_appends :: "string option \<Rightarrow> string \<Rightarrow> bool" where
  \<comment> \<open>\<open>add_todo\<close> appends a new section: no heading for the phase, or no \<open>## Phases\<close>\<close>
  "add_todo_appends phase_arg content =
     (case (if phase_arg = Some [] then None else phase_arg) of
        Some ph \<Rightarrow> find_sub (''### '' @ ph) content = None \<and> heading_search ph True content = None
      | None \<Rightarrow> \<not> contains ''## Phases'' content)"

section \<open>Auxiliary lemmas\<close>

lemma str_nat_10: "str_nat 10 = ''10''"
  by code_simp

lemma concat_split_lines: "concat (split_lines s) = s"
  by (induction s) (auto split: list.splits)

lemma split_lines_nonl: "nl \<notin> set a \<Longrightarrow> split_lines (a @ nl # rest) = (a @ [nl]) # split_lines rest"
  by (induction a) auto

lemma split_lines_Nil_iff: "split_lines s = [] \<longleftrightarrow> s = []"
  by (cases s) (auto split: list.splits)

lemma split_lines_single: "nl \<notin> set a \<Longrightarrow> a \<noteq> [] \<Longrightarrow> split_lines a = [a]"
proof (induction a)
  case Nil
  then show ?case by simp
next
  case (Cons c cs)
  then show ?case
    by (cases cs) (auto split: list.splits)
qed

lemma line_ok_cases: "line_ok l \<Longrightarrow> (\<exists>a. l = a @ [nl] \<and> nl \<notin> set a) \<or> (nl \<notin> set l \<and> l \<noteq> [])"
  unfolding line_ok_def
  by (cases l rule: rev_cases) auto

lemma split_lines_concat: "lines_ok ls \<Longrightarrow> split_lines (concat ls) = ls"
proof (induction ls rule: lines_ok.induct)
  case 1
  then show ?case by simp
next
  case (2 l)
  then show ?case
    using line_ok_cases[of l] by (auto simp: split_lines_nonl split_lines_single)
next
  case (3 l l' ls)
  then have "line_ok l" "last l = nl" "lines_ok (l' # ls)" by auto
  then obtain a where "l = a @ [nl]" "nl \<notin> set a"
    using line_ok_cases[of l] by (metis last_in_set)
  with 3 show ?case by (simp add: split_lines_nonl)
qed

lemma lines_ok_split_lines: "lines_ok (split_lines s)"
proof (induction s)
  case Nil
  then show ?case by simp
next
  case (Cons c cs)
  show ?case
  proof (cases "c = nl")
    case True
    then show ?thesis using Cons by (cases "split_lines cs") (auto simp: line_ok_def)
  next
    case False
    show ?thesis
    proof (cases "split_lines cs")
      case Nil
      then show ?thesis using False by (simp add: line_ok_def)
    next
      case (Cons l ls)
      then show ?thesis using False Cons.IH
        by (cases ls) (auto simp: line_ok_def split: if_splits)
    qed
  qed
qed




lemma universal_newlines_no_cr: "CHR 0x0D \<notin> set (universal_newlines s)"
  by (induction s rule: universal_newlines.induct) auto

lemma universal_newlines_id: "CHR 0x0D \<notin> set s \<Longrightarrow> universal_newlines s = s"
  by (induction s rule: universal_newlines.induct) auto

lemma universal_newlines_Nil_iff: "universal_newlines s = [] \<longleftrightarrow> s = []"
  by (cases s rule: universal_newlines.cases) auto

lemma read_text_id: "CHR 0x0D \<notin> set s \<Longrightarrow> read_text s = s"
  by (simp add: read_text_def universal_newlines_id)

lemma read_text_no_cr: "CHR 0x0D \<notin> set (read_text s)"
  by (simp add: read_text_def universal_newlines_no_cr)

lemma lines_ok_readlines: "lines_ok (readlines s)"
  by (simp add: readlines_def lines_ok_split_lines)

lemma concat_readlines: "concat (readlines s) = read_text s"
  by (simp add: readlines_def read_text_def concat_split_lines)

lemma readlines_id: "CHR 0x0D \<notin> set s \<Longrightarrow> readlines s = split_lines s"
  by (simp add: readlines_def universal_newlines_id)

lemma readlines_read_text: "split_lines (read_text s) = readlines s"
  by (simp add: readlines_def read_text_def)

lemma sorted_last_max:
  fixes f :: "'a \<Rightarrow> rat"
  assumes "sorted (map f ys)" "ys \<noteq> []" "y \<in> set ys"
  shows "f y \<le> f (last ys)"
proof -
  obtain i where i: "i < length ys" "ys ! i = y" using assms(3) by (auto simp: in_set_conv_nth)
  have "map f ys ! i \<le> map f ys ! (length ys - 1)"
    using assms(1) i(1) by (intro sorted_nth_mono) auto
  then show ?thesis using i assms(2) by (simp add: last_conv_nth)
qed

lemma last_filter_keep: "xs \<noteq> [] \<Longrightarrow> P (last xs) \<Longrightarrow> last (filter P xs) = last xs"
  by (induction xs rule: rev_induct) auto

lemma hd_sort_reverse:
  fixes f :: "'a \<Rightarrow> rat"
  assumes "xs \<noteq> []"
  shows "\<exists>k. hd (sort_reverse f xs) = hd (filter (\<lambda>x. f x = k) xs)
            \<and> filter (\<lambda>x. f x = k) xs \<noteq> [] \<and> (\<forall>x\<in>set xs. f x \<le> k)"
proof -
  define ys where "ys = sort_key f (rev xs)"
  have ne: "ys \<noteq> []" using assms unfolding ys_def by (metis length_0_conv length_sort rev_is_Nil_conv)
  have srt: "sorted (map f ys)" unfolding ys_def by simp
  define k where "k = f (last ys)"
  have mx: "\<forall>x\<in>set xs. f x \<le> k"
    unfolding k_def using sorted_last_max[OF srt ne] by (simp add: ys_def)
  have "last ys = last (filter (\<lambda>y. f y = k) ys)"
    using ne by (simp add: k_def last_filter_keep)
  also have "filter (\<lambda>y. f y = k) ys = rev (filter (\<lambda>y. f y = k) xs)"
    unfolding ys_def by (simp add: sort_key_stable rev_filter)
  finally have l: "last ys = last (rev (filter (\<lambda>y. f y = k) xs))" .
  have kin: "last ys \<in> set xs" using ne unfolding ys_def
    by (metis last_in_set set_rev set_sort)
  have fne: "filter (\<lambda>x. f x = k) xs \<noteq> []"
    using kin k_def by (auto simp: filter_empty_conv)
  have "hd (sort_reverse f xs) = last ys"
    unfolding sort_reverse_def ys_def[symmetric] using ne by (simp add: hd_rev)
  with l fne mx show ?thesis by (auto simp: last_rev)
qed




lemma exact_match_Some_iff:
  "exact_match ls item = Some i \<longleftrightarrow>
     i < length ls \<and> is_exact item (ls ! i) \<and> (\<forall>j<i. \<not> is_exact item (ls ! j))"
proof (induction ls arbitrary: i)
  case Nil
  then show ?case by simp
next
  case (Cons l ls)
  show ?case
  proof (cases "is_exact item l")
    case True
    then show ?thesis by (cases i) (auto simp: is_exact_def)
  next
    case False
    then have e: "exact_match (l # ls) item = map_option Suc (exact_match ls item)"
      by (auto simp: is_exact_def)
    show ?thesis
    proof (cases i)
      case 0
      then show ?thesis using False e by auto
    next
      case (Suc k)
      have "(\<forall>j<Suc k. \<not> is_exact item ((l # ls) ! j)) \<longleftrightarrow> (\<forall>j<k. \<not> is_exact item (ls ! j))"
        using False by (auto simp: less_Suc_eq_0_disj)
      then show ?thesis using Suc e Cons.IH[of k] by auto
    qed
  qed
qed

lemma exact_match_None_iff:
  "exact_match ls item = None \<longleftrightarrow> (\<forall>i<length ls. \<not> is_exact item (ls ! i))"
proof (induction ls)
  case Nil
  then show ?case by simp
next
  case (Cons l ls)
  then show ?case by (auto simp: is_exact_def less_Suc_eq_0_disj)
qed

lemma candidates_from_step:
  "candidates_from r t i (l # ls) =
     (case score_of r t l of None \<Rightarrow> [] | Some s \<Rightarrow> [(i, s, task_text_of l)])
     @ candidates_from r t (Suc i) ls"
  by (simp add: score_of_def Let_def)

lemma set_candidates_from:
  "(k, s, tx) \<in> set (candidates_from r t i ls) \<longleftrightarrow>
     (\<exists>j<length ls. k = i + j \<and> score_of r t (ls ! j) = Some s \<and> tx = task_text_of (ls ! j))"
proof (induction ls arbitrary: i)
  case Nil
  then show ?case by simp
next
  case (Cons l ls)
  have "(\<exists>j<length (l # ls). k = i + j \<and> score_of r t ((l # ls) ! j) = Some s
            \<and> tx = task_text_of ((l # ls) ! j)) \<longleftrightarrow>
        (k = i \<and> score_of r t l = Some s \<and> tx = task_text_of l) \<or>
        (\<exists>j<length ls. k = Suc i + j \<and> score_of r t (ls ! j) = Some s
            \<and> tx = task_text_of (ls ! j))"
    by (auto simp: less_Suc_eq_0_disj)
  then show ?case
    unfolding candidates_from_step using Cons.IH[of "Suc i"]
    by (auto split: option.splits)
qed

lemma candidates_from_lower: "x \<in> set (candidates_from r t i ls) \<Longrightarrow> i \<le> fst x"
  using set_candidates_from[of "fst x" "fst (snd x)" "snd (snd x)" r t i ls] by auto

lemma candidates_from_increasing: "sorted_wrt (<) (map fst (candidates_from r t i ls))"
proof (induction ls arbitrary: i)
  case Nil
  then show ?case by simp
next
  case (Cons l ls)
  have "\<forall>x\<in>set (candidates_from r t (Suc i) ls). i < fst x"
    using candidates_from_lower[of _ r t "Suc i" ls] by fastforce
  then show ?case
    unfolding candidates_from_step using Cons.IH[of "Suc i"]
    by (auto split: option.splits)
qed

lemma hd_filter_least:
  assumes "sorted_wrt (<) (map fst xs)" "x \<in> set xs" "P x"
  shows "fst (hd (filter P xs)) \<le> (fst x :: nat)"
  using assms
proof (induction xs)
  case Nil
  then show ?case by simp
next
  case (Cons a xs)
  then show ?case by (auto intro: less_imp_le)
qed

lemma best_match_fuzzy:
  assumes "exact_match ls item = None"
  shows "case best_match ratio ls item of
           None \<Rightarrow> (\<forall>i<length ls. score_of ratio (lower (strip item)) (ls ! i) = None)
         | Some i \<Rightarrow> i < length ls \<and>
             (\<exists>s. score_of ratio (lower (strip item)) (ls ! i) = Some s \<and>
                (\<forall>j<length ls. \<forall>s'. score_of ratio (lower (strip item)) (ls ! j) = Some s'
                    \<longrightarrow> s' \<le> s \<and> (s' = s \<longrightarrow> i \<le> j)))"
proof -
  define t where "t = lower (strip item)"
  define cs where "cs = candidates_from ratio t 0 ls"
  define key :: "nat \<times> rat \<times> string \<Rightarrow> rat" where "key = (\<lambda>x. fst (snd x))"
  show ?thesis
  proof (cases "cs = []")
    case True
    then have "best_match ratio ls item = None"
      using assms by (simp add: best_match_def t_def cs_def sort_reverse_def)
    moreover have "\<forall>i<length ls. score_of ratio t (ls ! i) = None"
    proof (intro allI impI)
      fix i assume i: "i < length ls"
      show "score_of ratio t (ls ! i) = None"
      proof (rule ccontr)
        assume "score_of ratio t (ls ! i) \<noteq> None"
        then obtain s where "score_of ratio t (ls ! i) = Some s" by auto
        then have "(i, s, task_text_of (ls ! i)) \<in> set cs"
          unfolding cs_def using i by (subst set_candidates_from) auto
        then show False using True by simp
      qed
    qed
    ultimately show ?thesis by (simp add: t_def)
  next
    case False
    from hd_sort_reverse[OF False, of key] obtain k where
      k: "hd (sort_reverse key cs) = hd (filter (\<lambda>x. key x = k) cs)"
         "filter (\<lambda>x. key x = k) cs \<noteq> []" "\<forall>x\<in>set cs. key x \<le> k" by blast
    define c where "c = hd (filter (\<lambda>x. key x = k) cs)"
    have srne: "sort_reverse key cs \<noteq> []"
      using False by (simp add: sort_reverse_def) (metis length_0_conv length_sort rev_is_Nil_conv)
    then have bm: "best_match ratio ls item = Some (fst c)"
      using assms k(1)
      by (cases "sort_reverse key cs")
         (auto simp: best_match_def t_def cs_def key_def c_def Let_def)
    have cin: "c \<in> set (filter (\<lambda>x. key x = k) cs)"
      unfolding c_def using k(2) hd_in_set by blast
    then have c_cs: "c \<in> set cs" and c_key: "key c = k" by auto
    obtain j where j: "j < length ls" "fst c = j" "score_of ratio t (ls ! j) = Some (fst (snd c))"
      using c_cs set_candidates_from[of "fst c" "fst (snd c)" "snd (snd c)" ratio t 0 ls]
      unfolding cs_def by auto
    have best: "\<forall>j'<length ls. \<forall>s'. score_of ratio t (ls ! j') = Some s'
                   \<longrightarrow> s' \<le> k \<and> (s' = k \<longrightarrow> fst c \<le> j')"
    proof (intro allI impI)
      fix j' s' assume a: "j' < length ls" "score_of ratio t (ls ! j') = Some s'"
      then have m: "(j', s', task_text_of (ls ! j')) \<in> set cs"
        unfolding cs_def by (subst set_candidates_from) auto
      then have le: "s' \<le> k" using k(3) by (auto simp: key_def)
      have "s' = k \<longrightarrow> fst c \<le> j'"
      proof
        assume "s' = k"
        then have "key (j', s', task_text_of (ls ! j')) = k" by (simp add: key_def)
        from hd_filter_least[OF _ m, of "\<lambda>x. key x = k", OF _ this]
        show "fst c \<le> j'" unfolding c_def cs_def using candidates_from_increasing by auto
      qed
      with le show "s' \<le> k \<and> (s' = k \<longrightarrow> fst c \<le> j')" by simp
    qed
    show ?thesis
      using bm j best c_key by (auto simp: t_def key_def)
  qed
qed

lemma best_match_unchecked:
  assumes "best_match ratio ls item = Some i"
  shows "i < length ls \<and> is_incomplete_task (ls ! i)"
proof (cases "exact_match ls item")
  case None
  from best_match_fuzzy[OF None, of ratio] assms
  obtain s where "i < length ls" "score_of ratio (lower (strip item)) (ls ! i) = Some s" by auto
  then show ?thesis by (auto simp: score_of_def split: if_splits)
next
  case (Some k)
  then have "k = i" using assms by (simp add: best_match_def)
  then show ?thesis using Some by (auto simp: exact_match_Some_iff is_exact_def)
qed

lemma fix_bug_lines:
  "readlines fix_bug_plan = [''## Phases\<newline>'', ''- [ ] Fix bug\<newline>'', ''- [ ] Fix bug in parser\<newline>'']"
  by code_simp

lemma task_prefix_Some:
  assumes "task_prefix line = Some (g, rest)"
  shows "\<exists>ws1 b ws2. g = ws1 @ [b] @ ws2 \<and> list_all is_space ws1 \<and> list_all is_space ws2
           \<and> (b = CHR ''-'' \<or> b = CHR ''*'') \<and> line = g @ ''[ ]'' @ rest"
proof -
  define ws1 where "ws1 = takeWhile is_space line"
  obtain b r where br: "dropWhile is_space line = b # r"
    using assms by (auto simp: task_prefix_def split: list.splits)
  define ws2 where "ws2 = takeWhile is_space r"
  define r' where "r' = dropWhile is_space r"
  from assms br have b: "b = CHR ''-'' \<or> b = CHR ''*''"
    by (auto simp: task_prefix_def Let_def split: if_splits)
  from assms br b have p: "prefix ''[ ]'' r'" and g: "g = ws1 @ [b] @ ws2" and rest: "rest = drop 3 r'"
    by (auto simp: task_prefix_def Let_def ws1_def ws2_def r'_def split: if_splits)
  from p obtain z where "r' = ''[ ]'' @ z" by (auto simp: prefix_def)
  then have r'eq: "r' = ''[ ]'' @ rest" using rest by simp
  have "line = ws1 @ dropWhile is_space line" by (simp add: ws1_def)
  also have "\<dots> = ws1 @ b # (ws2 @ r')" by (simp add: br ws2_def r'_def)
  finally have "line = g @ ''[ ]'' @ rest" using g r'eq by simp
  moreover have "list_all is_space ws1" "list_all is_space ws2"
    by (auto simp: ws1_def ws2_def list_all_iff dest: set_takeWhileD)
  ultimately show ?thesis using g b by blast
qed

lemma check_first_box_task:
  assumes "task_prefix line = Some (g, rest)"
  shows "check_first_box line = g @ ''[x]'' @ rest"
proof (cases line)
  case Nil
  then show ?thesis using assms by (simp add: task_prefix_def)
next
  case (Cons c cs)
  then show ?thesis using assms by simp
qed

lemma line_ok_toggle:
  assumes "line_ok (g @ ''[ ]'' @ rest)"
  shows "line_ok (g @ ''[x]'' @ rest)"
    and "last (g @ ''[x]'' @ rest) = nl \<longleftrightarrow> last (g @ ''[ ]'' @ rest) = nl"
  using assms by (cases rest rule: rev_cases; simp add: line_ok_def butlast_append)+

lemma lines_ok_update:
  assumes "lines_ok ls" "i < length ls" "line_ok l'" "last l' = nl \<longleftrightarrow> last (ls ! i) = nl"
  shows "lines_ok (ls[i := l'])"
  using assms
proof (induction ls arbitrary: i rule: lines_ok.induct)
  case 1
  then show ?case by simp
next
  case (2 l)
  then show ?case by simp
next
  case (3 l l2 ls)
  show ?case
  proof (cases i)
    case 0
    then show ?thesis using 3 by simp
  next
    case (Suc k)
    then have "lines_ok ((l2 # ls)[k := l'])" using 3 by simp
    then show ?thesis using Suc 3 by (cases k) auto
  qed
qed


lemma lines_ok_nth: "lines_ok ls \<Longrightarrow> i < length ls \<Longrightarrow> line_ok (ls ! i)"
proof (induction ls arbitrary: i rule: lines_ok.induct)
  case 1
  then show ?case by simp
next
  case (2 l)
  then show ?case by simp
next
  case (3 l l2 ls)
  then show ?case by (cases i) auto
qed

lemma star_lines:
  "readlines star_plan = [''## Phases\<newline>'', ''  * [ ] Fix bug\<newline>'', ''- [ ] Other\<newline>'']"
  by code_simp

lemma star_best: "best_match zero_ratio (readlines star_plan) ''fix'' = Some 1"
  unfolding star_lines by code_simp

lemma star_marked:
  "task_plan (snd (mark_complete zero_ratio ''fix'' star_files))
     = Some ''## Phases\<newline>  * [x] Fix bug\<newline>- [ ] Other\<newline>''"
  by code_simp

lemma mark_complete_toggle:
  assumes "task_plan fs = Some content" "best_match ratio (readlines content) item = Some i"
  shows "i < length (readlines content) \<and>
             (\<exists>ws1 b ws2 rest new.
                list_all is_space ws1 \<and> list_all is_space ws2 \<and> (b = CHR ''-'' \<or> b = CHR ''*'') \<and>
                readlines content ! i = ws1 @ [b] @ ws2 @ ''[ ]'' @ rest \<and>
                new = concat ((readlines content)[i := ws1 @ [b] @ ws2 @ ''[x]'' @ rest]) \<and>
                split_lines new = (readlines content)[i := ws1 @ [b] @ ws2 @ ''[x]'' @ rest] \<and>
                readlines new = (readlines content)[i := ws1 @ [b] @ ws2 @ ''[x]'' @ rest] \<and>
                snd (mark_complete ratio item fs)
                  = fs\<lparr>task_plan := Some new, written := TaskPlan # written fs\<rparr>)"
proof -
  define ls where "ls = readlines content"
  from best_match_unchecked[OF assms(2)]
  have i: "i < length ls" and t: "is_incomplete_task (ls ! i)"
    by (simp_all add: ls_def)
  from t obtain g rest where tp: "task_prefix (ls ! i) = Some (g, rest)"
    by (auto simp: is_incomplete_task_def)
  from task_prefix_Some[OF tp] obtain ws1 b ws2 where
    g: "g = ws1 @ [b] @ ws2" and sp: "list_all is_space ws1" "list_all is_space ws2"
    and b: "b = CHR ''-'' \<or> b = CHR ''*''" and line: "ls ! i = g @ ''[ ]'' @ rest" by blast
  define l' where "l' = g @ ''[x]'' @ rest"
  have cb: "check_first_box (ls ! i) = l'"
    unfolding l'_def by (rule check_first_box_task[OF tp])
  have ok: "lines_ok ls" unfolding ls_def by (rule lines_ok_readlines)
  then have "line_ok (g @ ''[ ]'' @ rest)" using lines_ok_nth[OF ok i] line by simp
  from line_ok_toggle[OF this] have "lines_ok (ls[i := l'])"
    using lines_ok_update[OF ok i, of l'] line by (simp add: l'_def)
  then have sl: "split_lines (concat (ls[i := l'])) = ls[i := l']"
    by (rule split_lines_concat)
  have "CHR 0x0D \<notin> set (concat ls)"
    unfolding ls_def concat_readlines by (rule read_text_no_cr)
  then have nocr: "\<forall>l\<in>set ls. CHR 0x0D \<notin> set l" by auto
  then have "CHR 0x0D \<notin> set (ls ! i)" using i by simp
  then have "CHR 0x0D \<notin> set l'" by (simp add: line l'_def)
  moreover have "set (ls[i := l']) \<subseteq> insert l' (set ls)" by (rule set_update_subset_insert)
  ultimately have "CHR 0x0D \<notin> set (concat (ls[i := l']))" using nocr by auto
  then have rl: "readlines (concat (ls[i := l'])) = ls[i := l']"
    using sl by (simp add: readlines_id)
  have "snd (mark_complete ratio item fs)
          = fs\<lparr>task_plan := Some (concat (ls[i := l'])), written := TaskPlan # written fs\<rparr>"
    using assms cb by (simp add: mark_complete_def Let_def ls_def)
  with rl sl sp b line g i have "i < length ls \<and>
             (\<exists>ws1 b ws2 rest new.
                list_all is_space ws1 \<and> list_all is_space ws2 \<and> (b = CHR ''-'' \<or> b = CHR ''*'') \<and>
                ls ! i = ws1 @ [b] @ ws2 @ ''[ ]'' @ rest \<and>
                new = concat (ls[i := ws1 @ [b] @ ws2 @ ''[x]'' @ rest]) \<and>
                split_lines new = ls[i := ws1 @ [b] @ ws2 @ ''[x]'' @ rest] \<and>
                readlines new = ls[i := ws1 @ [b] @ ws2 @ ''[x]'' @ rest] \<and>
                snd (mark_complete ratio item fs)
                  = fs\<lparr>task_plan := Some new, written := TaskPlan # written fs\<rparr>)"
    by (intro conjI exI[of _ ws1] exI[of _ b] exI[of _ ws2] exI[of _ rest]
          exI[of _ "concat (ls[i := l'])"]) (simp_all add: l'_def)
  then show ?thesis by (simp add: ls_def)
qed

lemma chomp_Cons: "c \<noteq> nl \<Longrightarrow> chomp (c # l) = c # chomp l"
  by (cases l rule: rev_cases) (auto simp: chomp_def)

lemma chomp_nl [simp]: "chomp [nl] = []"
  by (simp add: chomp_def)

lemma chomp_Nil [simp]: "chomp [] = []"
  by (simp add: chomp_def)

lemma split_nl_split_lines:
  "split_nl s = map chomp (split_lines s) @ (if s = [] \<or> last s = nl then [[]] else [])"
proof (induction s)
  case Nil
  then show ?case by simp
next
  case (Cons c cs)
  show ?case
  proof (cases "c = nl")
    case True
    then show ?thesis using Cons by auto
  next
    case False
    show ?thesis
    proof (cases cs)
      case Nil
      then show ?thesis using False by (simp add: chomp_def)
    next
      case (Cons d ds)
      then have "split_lines cs \<noteq> []" using split_lines_Nil_iff[of cs] by simp
      then obtain l ls where r: "split_lines cs = l # ls"
        by (cases "split_lines cs") auto
      then show ?thesis using False Cons Cons.IH
        by (auto simp: chomp_Cons)
    qed
  qed
qed

lemma parse_lines_update:
  assumes "i < length ls" "phase_match l' = phase_match (ls ! i)" "todo_match l' = todo_match (ls ! i)"
  shows "parse_lines p (ls[i := l']) = parse_lines p ls"
  using assms
proof (induction ls arbitrary: i p)
  case Nil
  then show ?case by simp
next
  case (Cons a ls)
  then show ?case by (cases i) (auto simp: Let_def split: option.splits)
qed


lemma not_space_simps [simp]:
  "\<not> is_space CHR ''-''" "\<not> is_space CHR ''*''" "\<not> is_space CHR ''[''" "\<not> is_space CHR ''#''"
  by (simp_all add: is_space_def)

lemma space_simps [simp]: "is_space CHR '' ''" "is_space nl"
  by (simp_all add: is_space_def)

lemma takeWhile_spaces:
  "list_all is_space ws \<Longrightarrow> \<not> is_space c \<Longrightarrow> takeWhile is_space (ws @ c # r) = ws"
  by (induction ws) auto

lemma dropWhile_spaces:
  "list_all is_space ws \<Longrightarrow> \<not> is_space c \<Longrightarrow> dropWhile is_space (ws @ c # r) = c # r"
  by (induction ws) auto

lemma task_prefix_intro:
  assumes "list_all is_space ws1" "list_all is_space ws2" "b = CHR ''-'' \<or> b = CHR ''*''"
  shows "task_prefix (ws1 @ [b] @ ws2 @ ''[ ]'' @ rest) = Some (ws1 @ [b] @ ws2, rest)"
proof -
  have nb: "\<not> is_space b" using assms(3) by auto
  show ?thesis
    using assms(1,2) nb assms(3)
    by (auto simp: task_prefix_def takeWhile_spaces dropWhile_spaces Let_def)
qed

lemma is_incomplete_task_iff:
  "is_incomplete_task line \<longleftrightarrow>
     (\<exists>ws1 b ws2 rest. list_all is_space ws1 \<and> list_all is_space ws2
        \<and> (b = CHR ''-'' \<or> b = CHR ''*'') \<and> line = ws1 @ [b] @ ws2 @ ''[ ]'' @ rest)"
proof
  assume "is_incomplete_task line"
  then obtain g rest where "task_prefix line = Some (g, rest)"
    by (auto simp: is_incomplete_task_def)
  from task_prefix_Some[OF this] show "\<exists>ws1 b ws2 rest. list_all is_space ws1 \<and> list_all is_space ws2
        \<and> (b = CHR ''-'' \<or> b = CHR ''*'') \<and> line = ws1 @ [b] @ ws2 @ ''[ ]'' @ rest"
    by fastforce
next
  assume "\<exists>ws1 b ws2 rest. list_all is_space ws1 \<and> list_all is_space ws2
        \<and> (b = CHR ''-'' \<or> b = CHR ''*'') \<and> line = ws1 @ [b] @ ws2 @ ''[ ]'' @ rest"
  then show "is_incomplete_task line"
    using task_prefix_intro by (auto simp: is_incomplete_task_def)
qed

lemma ws_then_text_iff:
  "ws_then_text r \<noteq> None \<longleftrightarrow> (\<exists>w t. r = w # t \<and> is_space w \<and> t \<noteq> [])"
proof (cases r)
  case Nil
  then show ?thesis by (simp add: ws_then_text_def)
next
  case (Cons w t)
  show ?thesis
  proof (cases "is_space w")
    case False
    then show ?thesis using Cons by (simp add: ws_then_text_def)
  next
    case True
    show ?thesis
    proof (cases "dropWhile is_space t = []")
      case False
      then have "t \<noteq> []" by auto
      then show ?thesis using Cons True False by (simp add: ws_then_text_def)
    next
      case dw: True
      then have "takeWhile is_space t = t"
        by (metis append_Nil2 takeWhile_dropWhile_id)
      then show ?thesis using Cons True dw
        by (cases t) (auto simp: ws_then_text_def Let_def)
    qed
  qed
qed

lemma todo_match_box:
  assumes "list_all is_space ws" "m = CHR '' '' \<or> m = CHR ''x''"
  shows "todo_match (CHR ''-'' # ws @ [CHR ''['', m, CHR '']''] @ r)
           = (if ws = [] then None else map_option (\<lambda>t. (m, t)) (ws_then_text r))"
proof -
  show ?thesis
    using assms
    by (auto simp: todo_match_def takeWhile_spaces dropWhile_spaces)
qed

lemma todo_match_iff:
  "todo_match line \<noteq> None \<longleftrightarrow>
     (\<exists>ws m w r. line = CHR ''-'' # ws @ [CHR ''['', m, CHR '']'', w] @ r \<and> ws \<noteq> []
        \<and> list_all is_space ws \<and> (m = CHR '' '' \<or> m = CHR ''x'') \<and> is_space w \<and> r \<noteq> [])"
proof
  assume a: "todo_match line \<noteq> None"
  then obtain b r0 where l: "line = b # r0" by (cases line) (auto simp: todo_match_def)
  from a l have b: "b = CHR ''-''" and ws: "takeWhile is_space r0 \<noteq> []"
    by (auto simp: todo_match_def split: if_splits)
  define ws where "ws = takeWhile is_space r0"
  from a l b ws obtain o1 m c1 r' where d: "dropWhile is_space r0 = o1 # m # c1 # r'"
    by (auto simp: todo_match_def split: if_splits list.splits)
  from a l b ws d have br: "o1 = CHR ''[''" "m = CHR '' '' \<or> m = CHR ''x''" "c1 = CHR '']''"
    and wt: "ws_then_text r' \<noteq> None"
    by (auto simp: todo_match_def split: if_splits)
  from wt obtain w t where r': "r' = w # t" "is_space w" "t \<noteq> []"
    using ws_then_text_iff by blast
  have "r0 = ws @ dropWhile is_space r0" by (simp add: ws_def)
  then have "line = CHR ''-'' # ws @ [CHR ''['', m, CHR '']'', w] @ t"
    using l b d br r' by simp
  moreover have "list_all is_space ws" by (auto simp: ws_def list_all_iff dest: set_takeWhileD)
  ultimately show "\<exists>ws m w r. line = CHR ''-'' # ws @ [CHR ''['', m, CHR '']'', w] @ r \<and> ws \<noteq> []
        \<and> list_all is_space ws \<and> (m = CHR '' '' \<or> m = CHR ''x'') \<and> is_space w \<and> r \<noteq> []"
    using ws br r' unfolding ws_def by blast
next
  assume "\<exists>ws m w r. line = CHR ''-'' # ws @ [CHR ''['', m, CHR '']'', w] @ r \<and> ws \<noteq> []
        \<and> list_all is_space ws \<and> (m = CHR '' '' \<or> m = CHR ''x'') \<and> is_space w \<and> r \<noteq> []"
  then obtain ws m w r where l: "line = CHR ''-'' # ws @ [CHR ''['', m, CHR '']''] @ (w # r)"
    and h: "ws \<noteq> []" "list_all is_space ws" "m = CHR '' '' \<or> m = CHR ''x''" "is_space w" "r \<noteq> []"
    by auto
  have "ws_then_text (w # r) \<noteq> None" using h ws_then_text_iff by blast
  then show "todo_match line \<noteq> None"
    unfolding l todo_match_box[OF h(2,3)] using h(1) by simp
qed


lemma chomp_append: "c \<noteq> nl \<Longrightarrow> chomp (a @ c # rest) = a @ c # chomp rest"
  by (cases rest rule: rev_cases) (auto simp: chomp_def butlast_append)

lemma phase_match_task_line:
  assumes "list_all is_space ws1" "b = CHR ''-'' \<or> b = CHR ''*''"
  shows "phase_match (ws1 @ b # r) = None"
  using assms by (cases ws1) (auto simp: phase_match_def)

lemma todo_match_indented: "is_space c \<Longrightarrow> todo_match (c # l) = None"
  by (auto simp: todo_match_def)

lemma todo_match_star: "todo_match (CHR ''*'' # l) = None"
  by (simp add: todo_match_def)

lemma todo_match_toggle:
  assumes "list_all is_space ws1" "list_all is_space ws2"
    and "todo_match (ws1 @ b # ws2 @ CHR ''['' # CHR '' '' # CHR '']'' # r) = None"
  shows "todo_match (ws1 @ b # ws2 @ CHR ''['' # CHR ''x'' # CHR '']'' # r) = None"
proof (cases ws1)
  case (Cons w ws)
  then show ?thesis using assms(1) by (simp add: todo_match_indented)
next
  case Nil
  show ?thesis
  proof (cases "b = CHR ''-''")
    case False
    then show ?thesis using Nil by (simp add: todo_match_def)
  next
    case True
    then show ?thesis
      using Nil assms(3) todo_match_box[OF assms(2), of "CHR '' ''" r]
        todo_match_box[OF assms(2), of "CHR ''x''" r]
      by (auto split: if_splits)
  qed
qed

lemma last_concat_lines: "ls \<noteq> [] \<Longrightarrow> last ls \<noteq> [] \<Longrightarrow> last (concat ls) = last (last ls)"
  by (induction ls rule: rev_induct) auto

lemma lines_ok_last: "lines_ok ls \<Longrightarrow> ls \<noteq> [] \<Longrightarrow> last ls \<noteq> []"
  using lines_ok_nth[of ls "length ls - 1"] by (auto simp: last_conv_nth line_ok_def)

lemma split_nl_lines:
  "split_nl s = map chomp (split_lines s)
     @ (if split_lines s = [] \<or> last (last (split_lines s)) = nl then [[]] else [])"
proof (cases "s = []")
  case True
  then show ?thesis by simp
next
  case False
  then have ne: "split_lines s \<noteq> []" by (simp add: split_lines_Nil_iff)
  have "last (concat (split_lines s)) = last (last (split_lines s))"
    using last_concat_lines[OF ne] lines_ok_last[OF lines_ok_split_lines ne] by simp
  then have "last s = last (last (split_lines s))" by (simp add: concat_split_lines)
  then show ?thesis using False ne split_nl_split_lines[of s] by simp
qed

lemma todo_match_empty_text:
  assumes "list_all is_space ws" "m = CHR '' '' \<or> m = CHR ''x''" "length r \<le> 1"
  shows "todo_match (CHR ''-'' # ws @ [CHR ''['', m, CHR '']''] @ r) = None"
proof -
  have "ws_then_text r = None"
    using assms(3) ws_then_text_iff[of r] by (cases r) auto
  then show ?thesis unfolding todo_match_box[OF assms(1,2)] by simp
qed

lemma indented_lines:
  "readlines indented_plan =
     [''### Phase 1\<newline>'', ''  - [ ] Indented\<newline>'', ''* [ ] Starred\<newline>'', ''- [ ] \<newline>'',
      ''- [ ] Plain\<newline>'']"
  by code_simp

lemma indented_best: "best_match zero_ratio (readlines indented_plan) ''Indented'' = Some 1"
  unfolding indented_lines by code_simp

lemma indented_unparsed: "todo_match (chomp (readlines indented_plan ! 1)) = None"
  unfolding indented_lines by code_simp

lemma indented_marked:
  "task_plan (snd (mark_complete zero_ratio ''Indented'' indented_files)) =
     Some ''### Phase 1\<newline>  - [x] Indented\<newline>* [ ] Starred\<newline>- [ ] \<newline>- [ ] Plain\<newline>''"
  by code_simp

lemma indented_counts:
  "pd_total (get_planning_data indented_files) = 1"
  "pd_completed (get_planning_data indented_files) = 0"
  by code_simp+

lemma iprefix_lower: "prefix (lower p) (lower s) = iprefix p s"
  by (induction p s rule: iprefix.induct) (auto simp: lower_def)

lemma dot_star_then_code [code]:
  "dot_star_then p [] = (p = [])"
  "dot_star_then p (c # cs) = (iprefix p (c # cs) \<or> (c \<noteq> CHR 0x0A \<and> dot_star_then p cs))"
  by (simp_all add: iprefix_lower)

lemma phases_loop_blocks:
  "phases_loop i ps = concat (map phase_block (zip [i..<i + length ps] ps))"
proof (induction ps arbitrary: i)
  case Nil
  then show ?case by simp
next
  case (Cons p ps)
  have "[i..<i + length (p # ps)] = i # [Suc i..<Suc i + length ps]"
    by (subst upt_rec) simp
  then show ?case using Cons[of "Suc i"] by (simp add: phase_block_def)
qed

lemma scenario_created_plan:
  "task_plan scenario_created = Some ''# Task Plan: Refactor\<newline>Created: 2026-01-01 10:00\<newline>Status: In Progress\<newline>\<newline>## Objective\<newline>Speed up parser\<newline>\<newline>## Phases\<newline>### Phase 1: Investigate\<newline>- [ ] \<newline>\<newline>### Phase 2: Implement\<newline>- [ ]\<newline>\<newline>## Decisions\<newline><!-- Record key decisions here -->\<newline>\<newline>## Error Log\<newline><!-- Log any errors or failed attempts here -->\<newline>\<newline>## Notes\<newline><!-- Additional notes and observations -->\<newline>''"
  by code_simp

lemma scenario_added_plan:
  "task_plan scenario_added = Some ''# Task Plan: Refactor\<newline>Created: 2026-01-01 10:00\<newline>Status: In Progress\<newline>\<newline>## Objective\<newline>Speed up parser\<newline>\<newline>## Phases\<newline>### Phase 1: Investigate\<newline>- [ ]\<newline>- [ ] Profile hotspots\<newline>\<newline>### Phase 2: Implement\<newline>- [ ]\<newline>\<newline>## Decisions\<newline><!-- Record key decisions here -->\<newline>\<newline>## Error Log\<newline><!-- Log any errors or failed attempts here -->\<newline>\<newline>## Notes\<newline><!-- Additional notes and observations -->\<newline>''"
  unfolding scenario_added_def add_todo_def scenario_created_plan by code_simp

lemma scenario_marked_plan:
  "task_plan scenario_marked = Some ''# Task Plan: Refactor\<newline>Created: 2026-01-01 10:00\<newline>Status: In Progress\<newline>\<newline>## Objective\<newline>Speed up parser\<newline>\<newline>## Phases\<newline>### Phase 1: Investigate\<newline>- [ ]\<newline>- [x] Profile hotspots\<newline>\<newline>### Phase 2: Implement\<newline>- [ ]\<newline>\<newline>## Decisions\<newline><!-- Record key decisions here -->\<newline>\<newline>## Error Log\<newline><!-- Log any errors or failed attempts here -->\<newline>\<newline>## Notes\<newline><!-- Additional notes and observations -->\<newline>''"
  unfolding scenario_marked_def mark_complete_def scenario_added_plan by code_simp

lemma scenario_marked_todos:
  "parse_todos_from_plan (read_text (the (task_plan scenario_marked))) =
     [\<lparr>todo_text = ''Profile hotspots'', todo_completed = True,
       todo_phase = Some ''Phase 1: Investigate''\<rparr>]"
  unfolding scenario_marked_plan by code_simp

lemma scenario_marked_errors:
  "count_sub ''### Error at'' (read_text (the (task_plan scenario_marked))) = 0"
  unfolding scenario_marked_plan by code_simp


lemma scenario_marked_files:
  "findings scenario_marked \<noteq> None" "progress scenario_marked \<noteq> None"
  by (simp_all add: scenario_marked_def scenario_added_def scenario_created_def
        mark_complete_def add_todo_def create_plan_def Let_def split: option.splits prod.splits)

lemma scenario_data:
  "get_planning_data scenario_marked =
     \<lparr>pd_todos = [\<lparr>todo_text = ''Profile hotspots'', todo_completed = True,
                   todo_phase = Some ''Phase 1: Investigate''\<rparr>],
      pd_completed = 1, pd_total = 1, pd_errors = 0, pd_exists = True,
      pd_has_findings = True, pd_has_progress = True\<rparr>"
  using scenario_marked_todos scenario_marked_errors scenario_marked_files scenario_marked_plan
  by (simp add: get_planning_data_def Let_def)

lemma scenario_status:
  "get_status scenario_marked =
     Status \<lparr>pd_todos = [\<lparr>todo_text = ''Profile hotspots'', todo_completed = True,
                          todo_phase = Some ''Phase 1: Investigate''\<rparr>],
             pd_completed = 1, pd_total = 1, pd_errors = 0, pd_exists = True,
             pd_has_findings = True, pd_has_progress = True\<rparr>"
  unfolding get_status_def scenario_data by simp

lemma empty_item_not_parsed: "todo_match ''- [ ] '' = None" "todo_match ''- [ ]'' = None"
  by code_simp+

lemma empty_item_unchecked: "is_incomplete_task ''- [ ] \<newline>''" "is_incomplete_task ''- [ ]\<newline>''"
  by code_simp+

lemma run_keeps_plan_absent:
  assumes "\<not> is_create op" "task_plan fs = None"
  shows "task_plan (snd (run ratio e op fs)) = None"
    and "filter (\<lambda>d. d = TaskPlan) (written (snd (run ratio e op fs)))
           = filter (\<lambda>d. d = TaskPlan) (written fs)"
  using assms
  by (cases op; simp add: update_plan_def mark_complete_def add_todo_def save_finding_def
        log_progress_def log_error_def cleanup_plan_def Let_def split: option.splits)+

lemma run_needs_plan:
  assumes "needs_plan op" "task_plan fs = None"
  shows "run ratio e op fs = (Warning ''No task_plan.md found.'', fs)"
  using assms
  by (cases op) (simp_all add: update_plan_def mark_complete_def add_todo_def log_error_def)


lemma run_creates_only_target:
  assumes "\<not> is_create op" "doc_text d fs = None" "target_of op \<noteq> Some d"
  shows "doc_text d (snd (run ratio e op fs)) = None"
  using assms
  by (cases op; cases d; simp add: update_plan_def mark_complete_def add_todo_def save_finding_def
        log_progress_def log_error_def cleanup_plan_def Let_def
        split: option.splits prod.splits bool.splits)

lemma save_finding_creates:
  assumes "findings fs = None"
  shows "save_finding e title content category fs =
     (Success (''Saved finding: '' @ [CHR 0x27] @ title @ [CHR 0x27]),
      fs\<lparr>dir_exists := True,
         findings := Some (save_finding_text e title content category
                             (read_text (FINDINGS_TEMPLATE ''Task'' (get_date e)))),
         written := Findings # Findings # written fs\<rparr>)"
  using assms by (simp add: save_finding_def Let_def)

lemma log_progress_creates:
  assumes "progress fs = None"
  shows "log_progress e entry include_timestamp fs =
     (Success (''Logged: '' @ entry),
      fs\<lparr>dir_exists := True,
         progress := Some (log_progress_text e entry include_timestamp
                             (read_text (PROGRESS_TEMPLATE ''Task'' (get_date e)))),
         written := Progress # Progress # written fs\<rparr>)"
  using assms by (simp add: log_progress_def Let_def)

lemma plan_absent_reports:
  assumes "task_plan fs = None"
  shows "read_plan e fs off = Warning ''No task_plan.md found. Use create_plan to start.''"
    and "check_plan_integrity fs = Warning ''No plan found.''"
    and "get_status fs = Info ''No active planning session. Use create_plan to start.''"
  using assms
  by (simp_all add: read_plan_def check_plan_integrity_def get_status_def get_planning_data_def)

lemma find_sub_Some_iff:
  "find_sub sub s = Some i \<longleftrightarrow>
     i \<le> length s \<and> prefix sub (drop i s) \<and> (\<forall>j<i. \<not> prefix sub (drop j s))"
proof (induction s arbitrary: i)
  case Nil
  then show ?case by auto
next
  case (Cons c cs)
  show ?case
  proof (cases "prefix sub (c # cs)")
    case True
    then show ?thesis by (cases i) auto
  next
    case False
    show ?thesis
    proof (cases i)
      case 0
      then show ?thesis using False by simp
    next
      case (Suc k)
      have "(\<forall>j<Suc k. \<not> prefix sub (drop j (c # cs))) \<longleftrightarrow> (\<forall>j<k. \<not> prefix sub (drop j cs))"
        using False by (auto simp: less_Suc_eq_0_disj)
      then show ?thesis using False Suc Cons.IH[of k] by auto
    qed
  qed
qed

lemma find_sub_None_iff:
  "find_sub sub s = None \<longleftrightarrow> (\<forall>j\<le>length s. \<not> prefix sub (drop j s))"
proof (induction s)
  case Nil
  then show ?case by auto
next
  case (Cons c cs)
  have "(\<forall>j\<le>length (c # cs). \<not> prefix sub (drop j (c # cs))) \<longleftrightarrow>
        \<not> prefix sub (c # cs) \<and> (\<forall>j\<le>length cs. \<not> prefix sub (drop j cs))"
  proof
    assume a: "\<forall>j\<le>length (c # cs). \<not> prefix sub (drop j (c # cs))"
    have "\<not> prefix sub (drop j cs)" if "j \<le> length cs" for j
      using a[rule_format, of "Suc j"] that by simp
    moreover have "\<not> prefix sub (c # cs)" using a[rule_format, of 0] by simp
    ultimately show "\<not> prefix sub (c # cs) \<and> (\<forall>j\<le>length cs. \<not> prefix sub (drop j cs))"
      by blast
  next
    assume a: "\<not> prefix sub (c # cs) \<and> (\<forall>j\<le>length cs. \<not> prefix sub (drop j cs))"
    show "\<forall>j\<le>length (c # cs). \<not> prefix sub (drop j (c # cs))"
    proof (intro allI impI)
      fix j assume "j \<le> length (c # cs)"
      then show "\<not> prefix sub (drop j (c # cs))" using a by (cases j) auto
    qed
  qed
  then show ?case using Cons by auto
qed

lemma find_sub_bound: "find_sub sub s = Some i \<Longrightarrow> i + length sub \<le> length s"
proof -
  assume "find_sub sub s = Some i"
  then have "i \<le> length s" "prefix sub (drop i s)" by (simp_all add: find_sub_Some_iff)
  then have "length sub \<le> length s - i" using prefix_length_le by fastforce
  with \<open>i \<le> length s\<close> show ?thesis by simp
qed

lemma find_from_Some_iff:
  "find_from sub s st = Some i \<longleftrightarrow>
     st \<le> i \<and> i \<le> length s \<and> prefix sub (drop i s)
       \<and> (\<forall>j. st \<le> j \<and> j < i \<longrightarrow> \<not> prefix sub (drop j s))"
proof (cases "length s < st")
  case True
  then show ?thesis by (auto simp: find_from_def)
next
  case False
  have "find_from sub s st = Some i \<longleftrightarrow> (\<exists>k. find_sub sub (drop st s) = Some k \<and> i = k + st)"
    using False by (auto simp: find_from_def)
  also have "\<dots> \<longleftrightarrow> (\<exists>k. i = k + st \<and> k \<le> length s - st \<and> prefix sub (drop (k + st) s)
                        \<and> (\<forall>j<k. \<not> prefix sub (drop (j + st) s)))"
    by (auto simp: find_sub_Some_iff add.commute)
  also have "\<dots> \<longleftrightarrow> st \<le> i \<and> i \<le> length s \<and> prefix sub (drop i s)
       \<and> (\<forall>j. st \<le> j \<and> j < i \<longrightarrow> \<not> prefix sub (drop j s))"
  proof
    assume "\<exists>k. i = k + st \<and> k \<le> length s - st \<and> prefix sub (drop (k + st) s)
                        \<and> (\<forall>j<k. \<not> prefix sub (drop (j + st) s))"
    then obtain k where k: "i = k + st" "k \<le> length s - st" "prefix sub (drop (k + st) s)"
      "\<forall>j<k. \<not> prefix sub (drop (j + st) s)" by blast
    have "\<not> prefix sub (drop j s)" if "st \<le> j" "j < i" for j
      using k(4)[rule_format, of "j - st"] that k(1) by simp
    then show "st \<le> i \<and> i \<le> length s \<and> prefix sub (drop i s)
       \<and> (\<forall>j. st \<le> j \<and> j < i \<longrightarrow> \<not> prefix sub (drop j s))"
      using k False by auto
  next
    assume a: "st \<le> i \<and> i \<le> length s \<and> prefix sub (drop i s)
       \<and> (\<forall>j. st \<le> j \<and> j < i \<longrightarrow> \<not> prefix sub (drop j s))"
    then have "i = (i - st) + st \<and> i - st \<le> length s - st \<and> prefix sub (drop ((i - st) + st) s)
                        \<and> (\<forall>j<i - st. \<not> prefix sub (drop (j + st) s))"
      by auto
    then show "\<exists>k. i = k + st \<and> k \<le> length s - st \<and> prefix sub (drop (k + st) s)
                        \<and> (\<forall>j<k. \<not> prefix sub (drop (j + st) s))" by blast
  qed
  finally show ?thesis .
qed

lemma find_from_bound: "find_from sub s st = Some i \<Longrightarrow> i + length sub \<le> length s"
proof -
  assume "find_from sub s st = Some i"
  then have "i \<le> length s" "prefix sub (drop i s)" by (simp_all add: find_from_Some_iff)
  then have "length sub \<le> length s - i" using prefix_length_le by fastforce
  with \<open>i \<le> length s\<close> show ?thesis by simp
qed

lemma contains_iff: "contains sub s \<longleftrightarrow> (\<exists>j\<le>length s. prefix sub (drop j s))"
  using find_sub_None_iff[of sub s] by (auto simp: contains_def)

lemma fold_min_mem: "fold min ys (x :: nat) \<in> set (x # ys)"
proof (induction ys arbitrary: x)
  case Nil
  then show ?case by simp
next
  case (Cons y ys)
  have "fold min ys (min y x) \<in> set (min y x # ys)" by (rule Cons.IH)
  moreover have "min y x = x \<or> min y x = y" by (auto simp: min_def)
  ultimately show ?case by auto
qed

lemma py_min_mem: "py_min xs = Some m \<Longrightarrow> m \<in> set xs"
  using fold_min_mem by (cases xs) auto

lemma set_map_filter_id: "x \<in> set (List.map_filter id xs) \<longleftrightarrow> Some x \<in> set xs"
  by (induction xs) (auto simp: List.map_filter_def)

lemma length_rstrip: "length (rstrip s) \<le> length s"
  by (simp add: rstrip_def length_dropWhile_le[of is_space "rev s", simplified])

lemma add_todo_text_inserts:
  "\<exists>new p frag. add_todo_text item phase_arg content = Some new \<and> inserted_at content p frag new
      \<and> (add_todo_appends phase_arg content \<longrightarrow> p = length content)"
proof (cases "if phase_arg = Some [] then None else phase_arg")
  case None
  show ?thesis
  proof (cases "contains ''## Phases'' content")
    case False
    then have "add_todo_text item phase_arg content
        = Some (rstrip content @ ''\<newline>\<newline>## Tasks\<newline>'' @ ''- [ ] '' @ item @ ''\<newline>'')"
      using None by (simp add: add_todo_text_def Let_def)
    then show ?thesis
      by (intro exI[of _ "rstrip content @ ''\<newline>\<newline>## Tasks\<newline>'' @ ''- [ ] '' @ item @ ''\<newline>''"]
            exI[of _ "length content"] exI[of _ "''\<newline>\<newline>## Tasks\<newline>'' @ ''- [ ] '' @ item @ ''\<newline>''"])
         (simp_all add: inserted_at_def)
  next
    case True
    then have "content \<noteq> []" by (auto simp: contains_def)
    define cands where "cands = filter (\<lambda>p. p > 0)
        (List.map_filter id [find_sub ''## Notes'' content, find_sub ''## Error Log'' content,
                             Some (length content)])"
    have "length content \<in> set cands"
      using \<open>content \<noteq> []\<close> by (simp add: cands_def set_map_filter_id del: map_filter_simps)
    then obtain m where m: "py_min cands = Some m" by (cases cands) auto
    from py_min_mem[OF m] have "m \<le> length content"
      using find_sub_bound[of "''## Notes''" content m] find_sub_bound[of "''## Error Log''" content m]
      by (auto simp: cands_def set_map_filter_id simp del: map_filter_simps)
    moreover have "add_todo_text item phase_arg content
        = Some (rstrip (take m content) @ ''\<newline>'' @ ''- [ ] '' @ item @ ''\<newline>\<newline>'' @ drop m content)"
      using None True m by (simp add: add_todo_text_def Let_def cands_def)
    ultimately show ?thesis
      by (intro exI[of _ "rstrip (take m content) @ ''\<newline>'' @ ''- [ ] '' @ item @ ''\<newline>\<newline>'' @ drop m content"]
            exI[of _ m] exI[of _ "''\<newline>'' @ ''- [ ] '' @ item @ ''\<newline>\<newline>''"])
         (simp_all add: inserted_at_def add_todo_appends_def None True)
  qed
next
  case (Some ph)
  define phase_start where "phase_start = (case find_sub (''### '' @ ph) content of
                                Some i \<Rightarrow> Some i
                              | None \<Rightarrow> heading_search ph True content)"
  show ?thesis
  proof (cases phase_start)
    case None
    then have "add_todo_text item phase_arg content
        = Some (rstrip content @ ''\<newline>\<newline>### '' @ ph @ ''\<newline>'' @ ''- [ ] '' @ item @ ''\<newline>'')"
      using Some by (simp add: add_todo_text_def Let_def phase_start_def)
    then show ?thesis
      by (intro exI[of _ "rstrip content @ ''\<newline>\<newline>### '' @ ph @ ''\<newline>'' @ ''- [ ] '' @ item @ ''\<newline>''"]
            exI[of _ "length content"] exI[of _ "''\<newline>\<newline>### '' @ ph @ ''\<newline>'' @ ''- [ ] '' @ item @ ''\<newline>''"])
         (simp_all add: inserted_at_def)
  next
    case st: (Some st)
    define ends where "ends = List.map_filter id
        [find_from ''\<newline>###'' content (st + 1), find_from ''\<newline>## '' content (st + 1)]"
    define ip where "ip = (case py_min ends of Some m \<Rightarrow> m | None \<Rightarrow> length content)"
    have "ip \<le> length content"
    proof (cases "py_min ends")
      case None
      then show ?thesis by (simp add: ip_def)
    next
      case (Some m)
      from py_min_mem[OF Some] show ?thesis
        using find_from_bound[of "''\<newline>###''" content "st + 1" m]
          find_from_bound[of "''\<newline>## ''" content "st + 1" m] Some
        by (auto simp: ends_def ip_def set_map_filter_id simp del: map_filter_simps)
    qed
    moreover have "add_todo_text item phase_arg content
        = Some (rstrip (take ip content) @ ''\<newline>'' @ ''- [ ] '' @ item @ ''\<newline>'' @ drop ip content)"
      using Some st by (simp add: add_todo_text_def Let_def phase_start_def ends_def ip_def)
    ultimately show ?thesis
      by (intro exI[of _ "rstrip (take ip content) @ ''\<newline>'' @ ''- [ ] '' @ item @ ''\<newline>'' @ drop ip content"]
            exI[of _ ip] exI[of _ "''\<newline>'' @ ''- [ ] '' @ item @ ''\<newline>''"])
         (use Some st in \<open>auto simp: inserted_at_def add_todo_appends_def phase_start_def split: option.splits\<close>)
  qed
qed

lemma update_plan_text_appends:
  assumes "\<not> contains (''## '' @ sec) content"
  shows "\<exists>frag. inserted_at content (length content) frag
                  (snd (update_plan_text sec body content))"
  using assms
  by (intro exI[of _ "''\<newline>\<newline>## '' @ sec @ ''\<newline>'' @ body @ ''\<newline>''"])
     (simp add: update_plan_text_def contains_def inserted_at_def)

lemma save_finding_text_inserts:
  "\<exists>p frag. inserted_at content p frag (save_finding_text e title body category content)
      \<and> (\<not> contains (''## '' @ category) content \<longrightarrow> p = length content)"
proof -
  define nf where "nf = ''\<newline>### '' @ title @ ''\<newline>*'' @ get_date e @ ''*\<newline>\<newline>'' @ body @ ''\<newline>''"
  show ?thesis
  proof (cases "find_sub (''## '' @ category) content")
    case None
    then have "save_finding_text e title body category content
                 = rstrip content @ ''\<newline>\<newline>## '' @ category @ nf"
      by (simp add: save_finding_text_def nf_def)
    then show ?thesis
      by (intro exI[of _ "length content"] exI[of _ "''\<newline>\<newline>## '' @ category @ nf"])
         (simp add: inserted_at_def)
  next
    case (Some idx)
    then have c: "contains (''## '' @ category) content" by (simp add: contains_def)
    show ?thesis
    proof (cases "find_from ''\<newline>## '' content (idx + length (''## '' @ category))")
      case None
      then have "save_finding_text e title body category content = rstrip content @ nf"
        using Some by (simp add: save_finding_text_def nf_def Let_def)
      then show ?thesis using c
        by (intro exI[of _ "length content"] exI[of _ nf]) (simp add: inserted_at_def nf_def)
    next
      case h2: (Some next_h2)
      then have "save_finding_text e title body category content
                   = rstrip (take next_h2 content) @ (nf @ ''\<newline>'') @ drop next_h2 content"
        using Some by (simp add: save_finding_text_def nf_def Let_def)
      moreover have "next_h2 \<le> length content" using find_from_bound[OF h2] by simp
      ultimately show ?thesis using c
        by (intro exI[of _ next_h2] exI[of _ "nf @ ''\<newline>''"]) (simp add: inserted_at_def)
    qed
  qed
qed

lemma log_error_text_inserts:
  "\<exists>p frag. inserted_at content p frag (log_error_text e error ctx content)
      \<and> (\<not> contains ''## Error Log'' content \<longrightarrow> p = length content)"
proof -
  define ee where "ee = error_entry_of e error ctx"
  have ne: "ee \<noteq> []" by (simp add: ee_def error_entry_of_def)
  show ?thesis
  proof (cases "find_sub ''## Error Log'' content")
    case None
    then have "log_error_text e error ctx content = rstrip content @ ''\<newline>\<newline>## Error Log'' @ ee"
      by (simp add: log_error_text_def ee_def)
    then show ?thesis
      by (intro exI[of _ "length content"] exI[of _ "''\<newline>\<newline>## Error Log'' @ ee"])
         (simp add: inserted_at_def)
  next
    case (Some idx)
    then have c: "contains ''## Error Log'' content" by (simp add: contains_def)
    show ?thesis
    proof (cases "find_from ''\<newline>## '' content (idx + length ''## Error Log'')")
      case None
      then have "log_error_text e error ctx content = rstrip content @ ee"
        using Some by (simp add: log_error_text_def ee_def Let_def)
      then show ?thesis using c ne
        by (intro exI[of _ "length content"] exI[of _ ee]) (simp add: inserted_at_def)
    next
      case h2: (Some next_h2)
      then have "log_error_text e error ctx content
                   = rstrip (take next_h2 content) @ (ee @ ''\<newline>'') @ drop next_h2 content"
        using Some by (simp add: log_error_text_def ee_def Let_def)
      moreover have "next_h2 \<le> length content" using find_from_bound[OF h2] by simp
      ultimately show ?thesis using c
        by (intro exI[of _ next_h2] exI[of _ "ee @ ''\<newline>''"]) (simp add: inserted_at_def)
    qed
  qed
qed

lemma inserted_at_keeps:
  assumes "inserted_at old p frag new"
  shows "prefix (rstrip (take p old)) new" and "suffix (drop p old) new"
    and "length new = length (rstrip (take p old)) + length frag + (length old - p)"
    and "rstrip (take p old) = take p old \<longrightarrow> prefix (take p old) new \<and> length old < length new"
  using assms by (auto simp: inserted_at_def suffix_def)

lemma padded_update:
  "update_plan_text ''A'' [] padded_doc = (False, ''x\<newline>\<newline>## A\<newline>\<newline>'')"
  by code_simp

lemma parse_toggle:
  assumes "task_plan fs = Some content" "best_match ratio (readlines content) item = Some i"
    and "todo_match (chomp (readlines content ! i)) = None"
  shows "\<exists>new. task_plan (snd (mark_complete ratio item fs)) = Some new \<and> new \<noteq> content
           \<and> parse_todos_from_plan (read_text new) = parse_todos_from_plan (read_text content)"
proof -
  define ls where "ls = readlines content"
  from mark_complete_toggle[OF assms(1,2)] obtain ws1 b ws2 rest new where
    i: "i < length ls" and sp: "list_all is_space ws1" "list_all is_space ws2"
    and b: "b = CHR ''-'' \<or> b = CHR ''*''"
    and old: "ls ! i = ws1 @ [b] @ ws2 @ ''[ ]'' @ rest"
    and new: "readlines new = ls[i := ws1 @ [b] @ ws2 @ ''[x]'' @ rest]"
    and st: "snd (mark_complete ratio item fs)
               = fs\<lparr>task_plan := Some new, written := TaskPlan # written fs\<rparr>"
    unfolding ls_def by blast
  define l' where "l' = ws1 @ [b] @ ws2 @ ''[x]'' @ rest"
  have ne: "ls \<noteq> []" using i by auto
  have "l' \<noteq> ls ! i" by (simp add: l'_def old)
  then have "readlines new \<noteq> readlines content"
    using new i unfolding ls_def[symmetric] l'_def[symmetric]
    by (metis nth_list_update_eq)
  then have diff: "new \<noteq> content" by auto
  have c_old: "chomp (ls ! i) = ws1 @ b # ws2 @ CHR ''['' # CHR '' '' # CHR '']'' # chomp rest"
    unfolding old using chomp_append[of "CHR '']''" "ws1 @ [b] @ ws2 @ ''[ ''" rest] by simp
  have c_new: "chomp l' = ws1 @ b # ws2 @ CHR ''['' # CHR ''x'' # CHR '']'' # chomp rest"
    unfolding l'_def using chomp_append[of "CHR '']''" "ws1 @ [b] @ ws2 @ ''[x''" rest] by simp
  have tm_old: "todo_match (chomp (ls ! i)) = None" using assms(3) by (simp add: ls_def)
  have tm_new: "todo_match (chomp l') = None"
    unfolding c_new using todo_match_toggle[OF sp] tm_old c_old by simp
  have pm: "phase_match (chomp l') = None" "phase_match (chomp (ls ! i)) = None"
    unfolding c_new c_old using phase_match_task_line[OF sp(1) b] by simp_all
  have lastl: "last l' = nl \<longleftrightarrow> last (ls ! i) = nl"
    unfolding l'_def old by (cases rest rule: rev_cases) simp_all
  have tail: "(readlines new = [] \<or> last (last (readlines new)) = nl)
                \<longleftrightarrow> (ls = [] \<or> last (last ls) = nl)"
  proof -
    have "last (ls[i := l']) = (if i = length ls - 1 then l' else last ls)"
      using ne by (rule last_list_update)
    moreover have "i = length ls - 1 \<Longrightarrow> last ls = ls ! i"
      using ne by (simp add: last_conv_nth)
    ultimately have "last (last (ls[i := l'])) = nl \<longleftrightarrow> last (last ls) = nl"
      using lastl by auto
    then show ?thesis unfolding new l'_def[symmetric] using ne by simp
  qed
  define t where "t = (if ls = [] \<or> last (last ls) = nl then [[]] else [] :: string list)"
  have "split_nl (read_text new) = (map chomp ls @ t)[i := chomp l']"
    using split_nl_lines[of "read_text new"] tail i
    unfolding readlines_read_text new l'_def[symmetric] t_def
    by (simp add: map_update list_update_append1)
  moreover have "split_nl (read_text content) = map chomp ls @ t"
    using split_nl_lines[of "read_text content"] unfolding readlines_read_text ls_def t_def by simp
  moreover have "parse_lines None ((map chomp ls @ t)[i := chomp l']) = parse_lines None (map chomp ls @ t)"
    using i tm_old tm_new pm by (intro parse_lines_update) (simp_all add: nth_append)
  ultimately have "parse_todos_from_plan (read_text new) = parse_todos_from_plan (read_text content)"
    by (simp add: parse_todos_from_plan_def)
  with diff st show ?thesis by simp
qed

lemma parse_lines_items:
  "map (\<lambda>t. (todo_completed t, todo_text t)) (parse_lines p ls) = List.map_filter item_of ls"
proof (induction ls arbitrary: p)
  case Nil
  then show ?case by (simp add: List.map_filter_def)
next
  case (Cons l ls)
  show ?case
  proof (cases "todo_match l")
    case None
    then show ?thesis using Cons by (simp add: item_of_def Let_def map_filter_simps)
  next
    case (Some mt)
    then show ?thesis using Cons
      by (cases mt) (simp add: item_of_def Let_def map_filter_simps)
  qed
qed

lemma parse_todos_items:
  "map (\<lambda>t. (todo_completed t, todo_text t)) (parse_todos_from_plan content)
     = List.map_filter item_of (split_nl content)"
  by (simp add: parse_todos_from_plan_def parse_lines_items)

lemma planning_data_counts:
  assumes "task_plan fs = Some raw"
  shows "pd_total (get_planning_data fs)
           = length (List.map_filter item_of (split_nl (read_text raw)))"
    and "pd_completed (get_planning_data fs)
           = length (filter fst (List.map_filter item_of (split_nl (read_text raw))))"
proof -
  define ts where "ts = parse_todos_from_plan (read_text raw)"
  have m: "map (\<lambda>t. (todo_completed t, todo_text t)) ts
             = List.map_filter item_of (split_nl (read_text raw))"
    unfolding ts_def by (rule parse_todos_items)
  have "pd_total (get_planning_data fs) = length ts"
    using assms by (simp add: get_planning_data_def Let_def ts_def)
  also have "\<dots> = length (map (\<lambda>t. (todo_completed t, todo_text t)) ts)" by simp
  finally show "pd_total (get_planning_data fs)
           = length (List.map_filter item_of (split_nl (read_text raw)))" using m by simp
  have "pd_completed (get_planning_data fs) = length (filter todo_completed ts)"
    using assms by (simp add: get_planning_data_def Let_def ts_def)
  also have "\<dots> = length (filter fst (map (\<lambda>t. (todo_completed t, todo_text t)) ts))"
    by (simp add: filter_map comp_def)
  finally show "pd_completed (get_planning_data fs)
           = length (filter fst (List.map_filter item_of (split_nl (read_text raw))))"
    using m by simp
qed


lemma indented_parse:
  "parse_todos_from_plan (read_text indented_plan) =
     [\<lparr>todo_text = ''Plain'', todo_completed = False, todo_phase = Some ''Phase 1''\<rparr>]"
  by code_simp

lemma blank_facts:
  "is_incomplete_task ''- [ ]  \<newline>''" "task_text_of ''- [ ]  \<newline>'' = []"
  "todo_match ''- [ ]  '' = Some (CHR '' '', '' '')"
  by code_simp+

lemma blank_best: "best_match zero_ratio (readlines blank_plan) [] = Some 1"
  by code_simp

lemma blank_before:
  "pd_completed (get_planning_data blank_files) = 0" "pd_total (get_planning_data blank_files) = 1"
  by code_simp+

lemma blank_marked:
  "task_plan (snd (mark_complete zero_ratio [] blank_files)) = Some ''## Phases\<newline>- [x]  \<newline>''"
  by code_simp

lemma blank_after:
  "pd_completed (get_planning_data (snd (mark_complete zero_ratio [] blank_files))) = 1"
  by code_simp

lemma star_no_cr: "cr \<notin> set star_plan"
  by code_simp

lemma crlf_marked:
  "task_plan (snd (mark_complete zero_ratio ''c'' crlf_files))
     = Some ''# T\<newline>- [ ] keep\<newline>- [x] c\<newline>''"
  by code_simp

lemma crlf_lines:
  "split_lines crlf_plan = [''# T'' @ [cr, nl], ''- [ ] keep'' @ [cr, nl], ''- [ ] c'' @ [cr, nl]]"
  "split_lines ''# T\<newline>- [ ] keep\<newline>- [x] c\<newline>'' = [''# T\<newline>'', ''- [ ] keep\<newline>'', ''- [x] c\<newline>'']"
  by code_simp+

lemma padded_add_todo:
  "add_todo_appends None padded_doc"
  "add_todo_text ''t'' None padded_doc = Some ''x\<newline>\<newline>## Tasks\<newline>- [ ] t\<newline>''"
  by code_simp+

section \<open>The claims\<close>

subsection \<open>Reading a document\<close>

text \<open>
  C5, as the code has it. \<open>read_plan\<close> and \<open>read_findings\<close> return the warning of a
  missing document when the file is absent. With the file present, the content is the text
  read from it; an offset greater than
  0 and at least the length of the content gives the end-of-file warning; every other
  offset gives the content from the offset to the end (all of it for an offset of 0 or
  below), cut to the character budget, the truncation notice appended exactly when the
  rest is longer than the budget. The budget is the setting, 4000 when the setting is 0.
\<close>

theorem read_document_cases:
  "(task_plan fs = None \<longrightarrow>
      read_plan e fs off = Warning ''No task_plan.md found. Use create_plan to start.'') \<and>
   (findings fs = None \<longrightarrow> read_findings e fs off = Warning ''No findings.md found.'') \<and>
   (\<forall>raw. task_plan fs = Some raw \<longrightarrow>
      (0 < off \<and> int (length (read_text raw)) \<le> off \<longrightarrow>
         read_plan e fs off = Warning ''End of file reached.'') \<and>
      (\<not> (0 < off \<and> int (length (read_text raw)) \<le> off) \<longrightarrow>
         read_plan e fs off = read_result e (read_text raw) off)) \<and>
   (\<forall>raw. findings fs = Some raw \<longrightarrow>
      (0 < off \<and> int (length (read_text raw)) \<le> off \<longrightarrow>
         read_findings e fs off = Warning ''End of file reached.'') \<and>
      (\<not> (0 < off \<and> int (length (read_text raw)) \<le> off) \<longrightarrow>
         read_findings e fs off = read_result e (read_text raw) off))"
  by (auto simp: read_plan_def read_findings_def read_result_def truncate_text_def budget_def
        notice_def Let_def)

theorem read_document_cases_witness:
  "read_plan \<lparr>get_date = [], max_plan_length = 10, planning_dir = []\<rparr>
     \<lparr>dir_exists = True, other_files = False, task_plan = Some (replicate 100 CHR ''a''),
      findings = None, progress = None, written = []\<rparr> 0
   = Raw (replicate 10 CHR ''a'' @ [CHR 0x0A] @ ''... (truncated to 10 characters)'') \<and>
   read_plan \<lparr>get_date = [], max_plan_length = 10, planning_dir = []\<rparr>
     \<lparr>dir_exists = True, other_files = False, task_plan = Some (replicate 100 CHR ''a''),
      findings = None, progress = None, written = []\<rparr> 100
   = Warning ''End of file reached.'' \<and>
   read_findings \<lparr>get_date = [], max_plan_length = 10, planning_dir = []\<rparr>
     \<lparr>dir_exists = True, other_files = False, task_plan = Some (replicate 100 CHR ''a''),
      findings = None, progress = None, written = []\<rparr> 0
   = Warning ''No findings.md found.''"
  using read_document_cases [of
      "\<lparr>dir_exists = True, other_files = False, task_plan = Some (replicate 100 CHR ''a''),
        findings = None, progress = None, written = []\<rparr>"
      "\<lparr>get_date = [], max_plan_length = 10, planning_dir = []\<rparr>" 0]
    read_document_cases [of
      "\<lparr>dir_exists = True, other_files = False, task_plan = Some (replicate 100 CHR ''a''),
        findings = None, progress = None, written = []\<rparr>"
      "\<lparr>get_date = [], max_plan_length = 10, planning_dir = []\<rparr>" 100]
  by (simp add: read_result_def budget_def notice_def str_nat_10 read_text_id)

text \<open>
  C5 as stated fails at offset 0 on an empty document: the offset is as large as the
  length, and the code returns the empty text, not the end-of-file warning.
\<close>

theorem read_plan_empty_offset_0:
  "read_plan \<lparr>get_date = [], max_plan_length = 10, planning_dir = []\<rparr>
     \<lparr>dir_exists = True, other_files = False, task_plan = Some [],
      findings = None, progress = None, written = []\<rparr> 0 = Raw [] \<and>
   read_plan \<lparr>get_date = [], max_plan_length = 10, planning_dir = []\<rparr>
     \<lparr>dir_exists = True, other_files = False, task_plan = Some [],
      findings = None, progress = None, written = []\<rparr> 0 \<noteq> Warning ''End of file reached.''"
  by (simp add: read_plan_def truncate_text_def read_text_def)

subsection \<open>Which item \<open>mark_complete\<close> selects\<close>

text \<open>
  C1. For every plan text and target, \<open>mark_complete\<close> selects among the unchecked
  lines only. When some unchecked line has the trimmed target as its trimmed text (compared
  with case), the first such line in document order is selected. Otherwise every unchecked
  line has the score of \<open>score_of\<close> against the lower-cased trimmed target: 0.9 when its
  lower-cased text contains the target, else the similarity ratio when that is above 0.8;
  the selected line has the highest score, and among the lines with that score it is the
  earliest. When no line has a score, the result is the warning that the item was not
  found. The similarity ratio is the library's and any function may stand for it.
\<close>

theorem mark_complete_resolution:
  assumes "task_plan fs = Some content" "lines = readlines content" "target = lower (strip item)"
  shows
  "(\<forall>i. i < length lines \<and> is_exact item (lines ! i) \<and> (\<forall>j<i. \<not> is_exact item (lines ! j))
        \<longrightarrow> best_match ratio lines item = Some i) \<and>
   ((\<forall>i<length lines. \<not> is_exact item (lines ! i)) \<longrightarrow>
      (case best_match ratio lines item of
         None \<Rightarrow> (\<forall>i<length lines. score_of ratio target (lines ! i) = None)
       | Some i \<Rightarrow> i < length lines \<and>
           (\<exists>s. score_of ratio target (lines ! i) = Some s \<and>
              (\<forall>j<length lines. \<forall>s'. score_of ratio target (lines ! j) = Some s'
                  \<longrightarrow> s' \<le> s \<and> (s' = s \<longrightarrow> i \<le> j))))) \<and>
   (case best_match ratio lines item of
      None \<Rightarrow> mark_complete ratio item fs =
                (Warning (''Item '' @ [CHR 0x27] @ item @ [CHR 0x27]
                            @ '' not found (or already completed)''), fs)
    | Some i \<Rightarrow> i < length lines \<and> is_incomplete_task (lines ! i) \<and>
        fst (mark_complete ratio item fs) =
          Success (''Marked as complete: '' @ task_text_of (lines ! i)))"
proof (intro conjI)
  show "\<forall>i. i < length lines \<and> is_exact item (lines ! i) \<and> (\<forall>j<i. \<not> is_exact item (lines ! j))
        \<longrightarrow> best_match ratio lines item = Some i"
  proof (intro allI impI)
    fix i
    assume "i < length lines \<and> is_exact item (lines ! i) \<and> (\<forall>j<i. \<not> is_exact item (lines ! j))"
    then have "exact_match lines item = Some i" by (simp add: exact_match_Some_iff)
    then show "best_match ratio lines item = Some i" by (simp add: best_match_def)
  qed
  show "(\<forall>i<length lines. \<not> is_exact item (lines ! i)) \<longrightarrow>
      (case best_match ratio lines item of
         None \<Rightarrow> (\<forall>i<length lines. score_of ratio target (lines ! i) = None)
       | Some i \<Rightarrow> i < length lines \<and>
           (\<exists>s. score_of ratio target (lines ! i) = Some s \<and>
              (\<forall>j<length lines. \<forall>s'. score_of ratio target (lines ! j) = Some s'
                  \<longrightarrow> s' \<le> s \<and> (s' = s \<longrightarrow> i \<le> j))))"
  proof (intro impI)
    assume "\<forall>i<length lines. \<not> is_exact item (lines ! i)"
    then have "exact_match lines item = None" by (simp add: exact_match_None_iff)
    from best_match_fuzzy[OF this, of ratio] show "case best_match ratio lines item of
         None \<Rightarrow> (\<forall>i<length lines. score_of ratio target (lines ! i) = None)
       | Some i \<Rightarrow> i < length lines \<and>
           (\<exists>s. score_of ratio target (lines ! i) = Some s \<and>
              (\<forall>j<length lines. \<forall>s'. score_of ratio target (lines ! j) = Some s'
                  \<longrightarrow> s' \<le> s \<and> (s' = s \<longrightarrow> i \<le> j)))"
      unfolding assms(3) .
  qed
  show "case best_match ratio lines item of
      None \<Rightarrow> mark_complete ratio item fs =
                (Warning (''Item '' @ [CHR 0x27] @ item @ [CHR 0x27]
                            @ '' not found (or already completed)''), fs)
    | Some i \<Rightarrow> i < length lines \<and> is_incomplete_task (lines ! i) \<and>
        fst (mark_complete ratio item fs) =
          Success (''Marked as complete: '' @ task_text_of (lines ! i))"
  proof (cases "best_match ratio lines item")
    case None
    then show ?thesis using assms(1,2) by (simp add: mark_complete_def)
  next
    case (Some i)
    then show ?thesis
      using assms(1,2) best_match_unchecked[OF Some] by (simp add: mark_complete_def Let_def)
  qed
qed

theorem mark_complete_resolution_witness:
  "is_exact ''Fix bug'' (readlines fix_bug_plan ! 1) \<and>
   \<not> is_exact ''Fix bug'' (readlines fix_bug_plan ! 0) \<and>
   best_match zero_ratio (readlines fix_bug_plan) ''Fix bug'' = Some 1 \<and>
   fst (mark_complete zero_ratio ''Fix bug'' fix_bug_files) = Success ''Marked as complete: Fix bug''"
proof -
  have f: "task_plan fix_bug_files = Some fix_bug_plan" by (simp add: fix_bug_files_def)
  note T = mark_complete_resolution[where ratio = zero_ratio and item = "''Fix bug''", OF f refl refl]
  have e1: "is_exact ''Fix bug'' (readlines fix_bug_plan ! 1)"
    unfolding fix_bug_lines by code_simp
  have e0: "\<not> is_exact ''Fix bug'' (readlines fix_bug_plan ! 0)"
    unfolding fix_bug_lines by code_simp
  have pre: "1 < length (readlines fix_bug_plan) \<and> is_exact ''Fix bug'' (readlines fix_bug_plan ! 1)
      \<and> (\<forall>j<1. \<not> is_exact ''Fix bug'' (readlines fix_bug_plan ! j))"
    using e0 e1 by (simp add: fix_bug_lines)
  have b: "best_match zero_ratio (readlines fix_bug_plan) ''Fix bug'' = Some 1"
    using T pre by blast
  have t: "task_text_of (readlines fix_bug_plan ! 1) = ''Fix bug''"
    unfolding fix_bug_lines by code_simp
  have "fst (mark_complete zero_ratio ''Fix bug'' fix_bug_files) = Success ''Marked as complete: Fix bug''"
    using T b t by simp
  with e0 e1 b show ?thesis by simp
qed

subsection \<open>The items that \<open>create_plan\<close> writes\<close>

text \<open>
  C2, as the code has it. With a list of phases that is not empty, \<open>create_plan\<close> writes
  for the phase of number \<open>i\<close> and name \<open>ph\<close> the heading \<open>### Phase i: ph\<close> and one empty
  unchecked item \<open>- [ ] \<close> (the text of all phases is trimmed, so the last item is \<open>- [ ]\<close>).
  \<open>mark_complete\<close> takes these items as unchecked lines, and the parser of the status does
  not count them: they have no text. After
  \<open>create_plan("Refactor", "Speed up parser", ["Investigate","Implement"])\<close>,
  \<open>add_todo("Profile hotspots", "Investigate")\<close> and \<open>mark_complete("Profile hotspots")\<close>,
  \<open>get_status\<close> reports completed = 1, total = 1 and errors = 0.
\<close>

theorem create_plan_placeholders:
  "(phases \<noteq> [] \<longrightarrow>
      task_plan (snd (create_plan e task_name objective phases fs)) =
        Some (TASK_PLAN_TEMPLATE task_name (get_date e) objective
                (strip (concat (map phase_block (zip [1..<Suc (length phases)] phases)))))) \<and>
   todo_match ''- [ ] '' = None \<and> todo_match ''- [ ]'' = None \<and>
   is_incomplete_task ''- [ ] \<newline>'' \<and> is_incomplete_task ''- [ ]\<newline>'' \<and>
   get_status scenario_marked =
     Status \<lparr>pd_todos = [\<lparr>todo_text = ''Profile hotspots'', todo_completed = True,
                          todo_phase = Some ''Phase 1: Investigate''\<rparr>],
             pd_completed = 1, pd_total = 1, pd_errors = 0, pd_exists = True,
             pd_has_findings = True, pd_has_progress = True\<rparr>"
proof (intro conjI impI)
  assume "phases \<noteq> []"
  then show "task_plan (snd (create_plan e task_name objective phases fs)) =
        Some (TASK_PLAN_TEMPLATE task_name (get_date e) objective
                (strip (concat (map phase_block (zip [1..<Suc (length phases)] phases)))))"
    using phases_loop_blocks[of 1 phases]
    by (simp add: create_plan_def phases_content_def Let_def)
qed (rule empty_item_not_parsed empty_item_unchecked scenario_status)+

theorem create_plan_placeholders_witness:
  "[''Investigate'', ''Implement''] \<noteq> [] \<and>
   task_plan scenario_created =
     Some (TASK_PLAN_TEMPLATE ''Refactor'' ''2026-01-01 10:00'' ''Speed up parser''
             (strip (phase_block (1, ''Investigate'') @ phase_block (2, ''Implement'')))) \<and>
   pd_total (get_planning_data scenario_marked) = 1"
proof -
  have "[1..<Suc (length [''Investigate'', ''Implement''])] = [1, 2]"
    by (simp add: upt_rec)
  then show ?thesis
    using create_plan_placeholders[of "[''Investigate'', ''Implement'']" scenario_env
        "''Refactor''" "''Speed up parser''" empty_dir]
    by (simp add: scenario_created_def scenario_env_def scenario_data numeral_2_eq_2)
qed

text \<open>
  C2 as stated says that the scenario ends with a total of 3. The two empty items are not
  parsed, and the total is 1.
\<close>

theorem scenario_total_is_1:
  "pd_completed (get_planning_data scenario_marked) = 1 \<and>
   pd_total (get_planning_data scenario_marked) = 1 \<and>
   pd_total (get_planning_data scenario_marked) \<noteq> 3 \<and>
   pd_errors (get_planning_data scenario_marked) = 0"
  by (simp add: scenario_data)

subsection \<open>Looking up a section by name\<close>

text \<open>
  C3 says that a requested name which is a proper prefix of the title of an existing
  heading (the section \<open>Note\<close> when only \<open>## Notes\<close> exists) is not a match, and that a new
  section is appended. The code tests \<open>section_marker in plan_content\<close>, which the text
  \<open>## Notes\<close> satisfies for the marker \<open>## Note\<close>. On the document below \<open>update_plan\<close>
  reports that it updated the section \<open>Note\<close>; it cuts the heading \<open>## Notes\<close> to \<open>## Note\<close>
  and replaces the body of that section. \<open>save_finding\<close> with the category \<open>Note\<close> puts the
  finding at the end of the section \<open>## Notes\<close>; no heading \<open>## Note\<close> is appended.
\<close>

theorem section_lookup_matches_prefix:
  "update_plan ''Note'' ''new body'' notes_files =
     (Success (''Updated section '' @ [CHR 0x27] @ ''Note'' @ [CHR 0x27]),
      notes_files\<lparr>task_plan := Some ''# Task\<newline>\<newline>## Note\<newline>new body\<newline>'',
                   written := [TaskPlan]\<rparr>) \<and>
   update_plan ''Other'' ''new body'' notes_files =
     (Success (''Added new section '' @ [CHR 0x27] @ ''Other'' @ [CHR 0x27]),
      notes_files\<lparr>task_plan :=
                     Some ''# Task\<newline>\<newline>## Notes\<newline>keep me\<newline>\<newline>## Other\<newline>new body\<newline>'',
                   written := [TaskPlan]\<rparr>) \<and>
   findings (snd (save_finding scenario_env ''T'' ''body'' ''Note'' notes_files)) =
     Some ''# Task\<newline>\<newline>## Notes\<newline>keep me\<newline>### T\<newline>*2026-01-01 10:00*\<newline>\<newline>body\<newline>''"
  by code_simp

subsection \<open>Operations on an absent plan document\<close>

text \<open>
  C7, as the code has it. Let \<open>task_plan.md\<close> be absent. No operation other than
  \<open>create_plan\<close> creates or writes it. \<open>update_plan\<close>, \<open>mark_complete\<close>, \<open>add_todo\<close> and
  \<open>log_error\<close> return the warning \<open>No task_plan.md found.\<close> and leave every file as it was;
  \<open>read_plan\<close> and \<open>check_plan_integrity\<close> return their own warnings and \<open>get_status\<close> its
  notice that no session is active. \<open>save_finding\<close> and \<open>log_progress\<close> do not look at the
  plan document: when their own document (\<open>findings.md\<close>, \<open>progress.md\<close>) is absent they
  write it from its template and then add the entry, and they report success. No other
  operation creates a document that is absent, \<open>create_plan\<close> and (through \<open>log_progress\<close>,
  when the plan exists) \<open>log_error\<close> apart.
\<close>

theorem absent_plan_operations:
  "(\<not> is_create op \<and> task_plan fs = None \<longrightarrow>
      task_plan (snd (run ratio e op fs)) = None \<and>
      filter (\<lambda>d. d = TaskPlan) (written (snd (run ratio e op fs)))
        = filter (\<lambda>d. d = TaskPlan) (written fs)) \<and>
   (needs_plan op \<and> task_plan fs = None \<longrightarrow>
      run ratio e op fs = (Warning ''No task_plan.md found.'', fs)) \<and>
   (task_plan fs = None \<longrightarrow>
      read_plan e fs off = Warning ''No task_plan.md found. Use create_plan to start.'' \<and>
      check_plan_integrity fs = Warning ''No plan found.'' \<and>
      get_status fs = Info ''No active planning session. Use create_plan to start.'') \<and>
   (findings fs = None \<longrightarrow>
      save_finding e title content category fs =
        (Success (''Saved finding: '' @ [CHR 0x27] @ title @ [CHR 0x27]),
         fs\<lparr>dir_exists := True,
            findings := Some (save_finding_text e title content category
                                (read_text (FINDINGS_TEMPLATE ''Task'' (get_date e)))),
            written := Findings # Findings # written fs\<rparr>)) \<and>
   (progress fs = None \<longrightarrow>
      log_progress e entry include_timestamp fs =
        (Success (''Logged: '' @ entry),
         fs\<lparr>dir_exists := True,
            progress := Some (log_progress_text e entry include_timestamp
                                (read_text (PROGRESS_TEMPLATE ''Task'' (get_date e)))),
            written := Progress # Progress # written fs\<rparr>)) \<and>
   (\<not> is_create op \<and> doc_text d fs = None \<and> target_of op \<noteq> Some d \<longrightarrow>
      doc_text d (snd (run ratio e op fs)) = None)"
  using run_keeps_plan_absent[of op fs ratio e] run_needs_plan[of op fs ratio e]
    plan_absent_reports(1)[of fs e off] plan_absent_reports(2,3)[of fs] save_finding_creates[of fs e title content category]
    log_progress_creates[of fs e entry include_timestamp]
    run_creates_only_target[of op d fs ratio e]
  by simp

theorem absent_plan_operations_witness:
  "task_plan empty_dir = None \<and>
   run zero_ratio scenario_env (MarkComplete ''Fix bug'') empty_dir
     = (Warning ''No task_plan.md found.'', empty_dir) \<and>
   task_plan (snd (run zero_ratio scenario_env (SaveFinding ''T'' ''body'' ''Note'') empty_dir)) = None \<and>
   findings (snd (save_finding scenario_env ''T'' ''body'' ''Note'' empty_dir))
     = Some (save_finding_text scenario_env ''T'' ''body'' ''Note''
               (read_text (FINDINGS_TEMPLATE ''Task'' ''2026-01-01 10:00'')))"
  using absent_plan_operations[where op = "MarkComplete ''Fix bug''" and fs = empty_dir
      and ratio = zero_ratio and e = scenario_env and title = "''T''" and content = "''body''"
      and category = "''Note''"]
    absent_plan_operations[where op = "SaveFinding ''T'' ''body'' ''Note''" and fs = empty_dir
      and ratio = zero_ratio and e = scenario_env and title = "''T''" and content = "''body''"
      and category = "''Note''"]
  by (simp add: empty_dir_def scenario_env_def)

text \<open>
  C7 as stated says that every operation other than \<open>create_plan\<close> returns a warning when
  the plan document is absent. \<open>save_finding\<close> and \<open>log_progress\<close> report success then.
\<close>

theorem save_finding_without_plan:
  "task_plan empty_dir = None \<and>
   fst (save_finding scenario_env ''T'' ''body'' ''Key Discoveries'' empty_dir)
     = Success (''Saved finding: '' @ [CHR 0x27] @ ''T'' @ [CHR 0x27]) \<and>
   fst (log_progress scenario_env ''step'' True empty_dir) = Success ''Logged: step''"
  by (simp add: empty_dir_def save_finding_def log_progress_def Let_def)

subsection \<open>What an insertion keeps\<close>

text \<open>
  C8, as the code has it. Every insertion (\<open>add_todo\<close> in either mode, \<open>save_finding\<close>,
  \<open>log_error\<close>, and \<open>update_plan\<close> when it appends a new section) puts a fragment that is
  not empty at a position \<open>p\<close> of the text read from the document, after trimming the white
  space that ends the part in front of \<open>p\<close>; \<open>p\<close> is the end of the text when a new section
  is appended (by \<open>add_todo\<close>: when no heading is found for the phase, or, without a phase,
  when the text has no \<open>## Phases\<close>). So the
  part in front of \<open>p\<close>, right-trimmed, is a prefix of the new text and the part from \<open>p\<close> on
  is its suffix: nothing but trailing white space in front of the insertion point is lost.
  The new length is the old one, less the trimmed white space, plus the length of the
  fragment; the text grows whenever there was no white space to trim.
\<close>

theorem insertion_keeps_trimmed_content:
  "(\<exists>new p frag. add_todo_text item phase_arg content = Some new \<and> inserted_at content p frag new
      \<and> (add_todo_appends phase_arg content \<longrightarrow> p = length content)) \<and>
   (\<not> contains (''## '' @ sec) content \<longrightarrow>
      (\<exists>frag. inserted_at content (length content) frag
                 (snd (update_plan_text sec body content)))) \<and>
   (\<exists>p frag. inserted_at content p frag (save_finding_text e title body category content)
      \<and> (\<not> contains (''## '' @ category) content \<longrightarrow> p = length content)) \<and>
   (\<exists>p frag. inserted_at content p frag (log_error_text e error ctx content)
      \<and> (\<not> contains ''## Error Log'' content \<longrightarrow> p = length content)) \<and>
   (inserted_at old q fr new' \<longrightarrow>
      prefix (rstrip (take q old)) new' \<and> suffix (drop q old) new' \<and>
      length new' = length (rstrip (take q old)) + length fr + (length old - q) \<and>
      (rstrip (take q old) = take q old \<longrightarrow> prefix (take q old) new' \<and> length old < length new'))"
  using add_todo_text_inserts[of item phase_arg content]
    update_plan_text_appends[of sec content body]
    save_finding_text_inserts[of content e title body category]
    log_error_text_inserts[of content e error ctx]
    inserted_at_keeps[of old q fr new']
  by blast

theorem insertion_keeps_trimmed_content_witness:
  "\<not> contains ''## A'' padded_doc \<and>
   prefix (rstrip padded_doc) (snd (update_plan_text ''A'' [] padded_doc)) \<and>
   rstrip padded_doc = ''x'' \<and>
   snd (update_plan_text ''A'' [] padded_doc) = ''x\<newline>\<newline>## A\<newline>\<newline>'' \<and>
   add_todo_appends None padded_doc \<and>
   add_todo_text ''t'' None padded_doc = Some ''x\<newline>\<newline>## Tasks\<newline>- [ ] t\<newline>''"
proof -
  have c: "\<not> contains ''## A'' padded_doc" by code_simp
  have r: "rstrip padded_doc = ''x''" by code_simp
  from insertion_keeps_trimmed_content[where sec = "''A''" and content = padded_doc and body = "[]"] c
  have "\<exists>frag. inserted_at padded_doc (length padded_doc) frag
                 (snd (update_plan_text ''A'' [] padded_doc))"
    by simp
  then obtain frag where f: "inserted_at padded_doc (length padded_doc) frag
                          (snd (update_plan_text ''A'' [] padded_doc))" ..
  from insertion_keeps_trimmed_content[where old = padded_doc and q = "length padded_doc"
      and fr = frag and new' = "snd (update_plan_text ''A'' [] padded_doc)"] f
  have "prefix (rstrip padded_doc) (snd (update_plan_text ''A'' [] padded_doc))" by simp
  then show ?thesis using c r padded_update padded_add_todo by simp
qed

text \<open>
  C8 as stated says that the prior text is a prefix of the new one when a section is
  appended and that the text never gets shorter. A document that ends with ten line feeds
  loses them: it has 11 characters before \<open>update_plan\<close> appends the section \<open>A\<close> and 9 after.
\<close>

theorem update_plan_shrinks_padded_document:
  "\<not> contains ''## A'' padded_doc \<and>
   update_plan_text ''A'' [] padded_doc = (False, ''x\<newline>\<newline>## A\<newline>\<newline>'') \<and>
   length padded_doc = 11 \<and> length (snd (update_plan_text ''A'' [] padded_doc)) = 9 \<and>
   \<not> prefix padded_doc (snd (update_plan_text ''A'' [] padded_doc))"
proof -
  have "\<not> contains ''## A'' padded_doc" by code_simp
  moreover have "length padded_doc = 11" by (simp add: padded_doc_def)
  moreover have "\<not> prefix padded_doc ''x\<newline>\<newline>## A\<newline>\<newline>''" by code_simp
  ultimately show ?thesis by (simp add: padded_update)
qed

subsection \<open>The parser and the lines \<open>mark_complete\<close> toggles\<close>

text \<open>
  C10, as the code has it. The parser of \<open>_parse_todos_from_plan\<close> takes a line exactly when
  the line is \<open>-\<close> at column 0, white space, \<open>[ ]\<close> or \<open>[x]\<close>, one white-space character and
  then a text that is not empty (which may itself be white space); its items are these
  lines in document order, and the total and completed counts of \<open>get_status\<close> count them.
  \<open>mark_complete\<close> takes as unchecked every line of white space, a bullet \<open>-\<close> or \<open>*\<close>, white
  space and \<open>[ ]\<close>. A line with leading indentation, with a \<open>*\<close> bullet, or with nothing or a
  single white-space character after the checkbox is not parsed. When \<open>mark_complete\<close>
  selects a line that the parser does not take, the file changes and the parsed items,
  hence the completed and total counts of \<open>get_status\<close>, do not.
\<close>

theorem parser_excludes_toggle_candidates:
  "(todo_match line \<noteq> None \<longleftrightarrow>
     (\<exists>ws m w r. line = CHR ''-'' # ws @ [CHR ''['', m, CHR '']'', w] @ r \<and> ws \<noteq> []
        \<and> list_all is_space ws \<and> (m = CHR '' '' \<or> m = CHR ''x'') \<and> is_space w \<and> r \<noteq> [])) \<and>
   (is_incomplete_task line \<longleftrightarrow>
     (\<exists>ws1 b ws2 rest. list_all is_space ws1 \<and> list_all is_space ws2
        \<and> (b = CHR ''-'' \<or> b = CHR ''*'') \<and> line = ws1 @ [b] @ ws2 @ ''[ ]'' @ rest)) \<and>
   map (\<lambda>t. (todo_completed t, todo_text t)) (parse_todos_from_plan plan)
     = List.map_filter item_of (split_nl plan) \<and>
   (task_plan fs = Some content \<longrightarrow>
      pd_total (get_planning_data fs)
        = length (List.map_filter item_of (split_nl (read_text content))) \<and>
      pd_completed (get_planning_data fs)
        = length (filter fst (List.map_filter item_of (split_nl (read_text content))))) \<and>
   (is_space c \<longrightarrow> todo_match (c # l) = None) \<and>
   todo_match (CHR ''*'' # l) = None \<and>
   (list_all is_space ws \<and> (m = CHR '' '' \<or> m = CHR ''x'') \<and> length r \<le> 1 \<longrightarrow>
      todo_match (CHR ''-'' # ws @ [CHR ''['', m, CHR '']''] @ r) = None) \<and>
   (task_plan fs = Some content \<and> best_match ratio (readlines content) item = Some i
      \<and> todo_match (chomp (readlines content ! i)) = None \<longrightarrow>
      (\<exists>new. task_plan (snd (mark_complete ratio item fs)) = Some new \<and> new \<noteq> content
         \<and> parse_todos_from_plan (read_text new) = parse_todos_from_plan (read_text content)) \<and>
      pd_completed (get_planning_data (snd (mark_complete ratio item fs)))
        = pd_completed (get_planning_data fs) \<and>
      pd_total (get_planning_data (snd (mark_complete ratio item fs)))
        = pd_total (get_planning_data fs))"
proof (intro conjI impI)
  show "todo_match line \<noteq> None \<longleftrightarrow>
     (\<exists>ws m w r. line = CHR ''-'' # ws @ [CHR ''['', m, CHR '']'', w] @ r \<and> ws \<noteq> []
        \<and> list_all is_space ws \<and> (m = CHR '' '' \<or> m = CHR ''x'') \<and> is_space w \<and> r \<noteq> [])"
    by (rule todo_match_iff)
  show "is_incomplete_task line \<longleftrightarrow>
     (\<exists>ws1 b ws2 rest. list_all is_space ws1 \<and> list_all is_space ws2
        \<and> (b = CHR ''-'' \<or> b = CHR ''*'') \<and> line = ws1 @ [b] @ ws2 @ ''[ ]'' @ rest)"
    by (rule is_incomplete_task_iff)
  show "map (\<lambda>t. (todo_completed t, todo_text t)) (parse_todos_from_plan plan)
     = List.map_filter item_of (split_nl plan)"
    by (rule parse_todos_items)
  show "pd_total (get_planning_data fs)
        = length (List.map_filter item_of (split_nl (read_text content)))"
    if "task_plan fs = Some content"
    using that by (rule planning_data_counts)
  show "pd_completed (get_planning_data fs)
        = length (filter fst (List.map_filter item_of (split_nl (read_text content))))"
    if "task_plan fs = Some content"
    using that by (rule planning_data_counts)
  show "todo_match (c # l) = None" if "is_space c"
    using that by (rule todo_match_indented)
  show "todo_match (CHR ''*'' # l) = None"
    by (rule todo_match_star)
  show "todo_match (CHR ''-'' # ws @ [CHR ''['', m, CHR '']''] @ r) = None"
    if h: "list_all is_space ws \<and> (m = CHR '' '' \<or> m = CHR ''x'') \<and> length r \<le> 1"
  proof -
    from h have 1: "list_all is_space ws" and 2: "m = CHR '' '' \<or> m = CHR ''x''"
      and 3: "length r \<le> 1" by simp_all
    show ?thesis by (rule todo_match_empty_text[OF 1 2 3])
  qed
next
  assume a: "task_plan fs = Some content \<and> best_match ratio (readlines content) item = Some i
      \<and> todo_match (chomp (readlines content ! i)) = None"
  then have a1: "task_plan fs = Some content"
    and a2: "best_match ratio (readlines content) item = Some i"
    and a3: "todo_match (chomp (readlines content ! i)) = None" by simp_all
  note p = parse_toggle[OF a1 a2 a3]
  then show "\<exists>new. task_plan (snd (mark_complete ratio item fs)) = Some new \<and> new \<noteq> content
         \<and> parse_todos_from_plan (read_text new) = parse_todos_from_plan (read_text content)" .
  from p obtain new where n: "task_plan (snd (mark_complete ratio item fs)) = Some new"
    "parse_todos_from_plan (read_text new) = parse_todos_from_plan (read_text content)" by blast
  show "pd_completed (get_planning_data (snd (mark_complete ratio item fs)))
        = pd_completed (get_planning_data fs)"
    by (simp add: get_planning_data_def n a1 Let_def)
  show "pd_total (get_planning_data (snd (mark_complete ratio item fs)))
        = pd_total (get_planning_data fs)"
    by (simp add: get_planning_data_def n a1 Let_def)
qed

theorem parser_excludes_toggle_candidates_witness:
  "task_plan indented_files = Some indented_plan \<and>
   best_match zero_ratio (readlines indented_plan) ''Indented'' = Some 1 \<and>
   todo_match (chomp (readlines indented_plan ! 1)) = None \<and>
   parse_todos_from_plan (read_text indented_plan) =
     [\<lparr>todo_text = ''Plain'', todo_completed = False, todo_phase = Some ''Phase 1''\<rparr>] \<and>
   task_plan (snd (mark_complete zero_ratio ''Indented'' indented_files)) =
     Some ''### Phase 1\<newline>  - [x] Indented\<newline>* [ ] Starred\<newline>- [ ] \<newline>- [ ] Plain\<newline>'' \<and>
   pd_completed (get_planning_data (snd (mark_complete zero_ratio ''Indented'' indented_files))) = 0 \<and>
   pd_total (get_planning_data (snd (mark_complete zero_ratio ''Indented'' indented_files))) = 1"
proof -
  have f: "task_plan indented_files = Some indented_plan" by (simp add: indented_files_def)
  from parser_excludes_toggle_candidates[where fs = indented_files and content = indented_plan
      and ratio = zero_ratio and item = "''Indented''" and i = 1]
  have "pd_completed (get_planning_data (snd (mark_complete zero_ratio ''Indented'' indented_files)))
        = pd_completed (get_planning_data indented_files) \<and>
      pd_total (get_planning_data (snd (mark_complete zero_ratio ''Indented'' indented_files)))
        = pd_total (get_planning_data indented_files)"
    using f indented_best indented_unparsed by blast
  then show ?thesis
    using f indented_best indented_unparsed indented_marked indented_counts indented_parse
    by simp
qed

text \<open>
  C10 as stated says that a line with empty text after the checkbox is not parsed, and that
  marking it complete leaves the counts as they were. The line \<open>- [ ]\<close> followed by two
  blanks has the empty text for \<open>mark_complete\<close>, which the empty target selects; the parser
  takes it, with its last blank as text, and after the call the completed count is 1, not
  0.
\<close>

theorem blank_item_is_counted:
  "is_incomplete_task ''- [ ]  \<newline>'' \<and> task_text_of ''- [ ]  \<newline>'' = [] \<and>
   todo_match ''- [ ]  '' = Some (CHR '' '', '' '') \<and>
   best_match zero_ratio (readlines blank_plan) [] = Some 1 \<and>
   task_plan (snd (mark_complete zero_ratio [] blank_files)) = Some ''## Phases\<newline>- [x]  \<newline>'' \<and>
   pd_total (get_planning_data blank_files) = 1 \<and>
   pd_completed (get_planning_data blank_files) = 0 \<and>
   pd_completed (get_planning_data (snd (mark_complete zero_ratio [] blank_files))) = 1"
  using blank_facts blank_best blank_before blank_marked blank_after by simp

subsection \<open>What \<open>mark_complete\<close> writes\<close>

text \<open>
  C4, as the code has it. Whenever \<open>mark_complete\<close> finds a match, the document it writes
  has the lines of the previous content as read in text mode (every CR LF and every other
  CR a line feed) with one line changed: the matched line, whose \<open>[ ]\<close> becomes \<open>[x]\<close> while
  its indentation, its bullet (\<open>-\<close> or \<open>*\<close>), the white space after the bullet and all that
  follows the bracket stay as they were. So a document that holds no CR differs on disk in
  that one line only. When no candidate matches, nothing is written: the files and the log
  of writes are those before the call.
\<close>

theorem mark_complete_frame:
  assumes "task_plan fs = Some raw"
  shows "case best_match ratio (readlines raw) item of
           None \<Rightarrow> snd (mark_complete ratio item fs) = fs
         | Some i \<Rightarrow> i < length (readlines raw) \<and>
             (\<exists>ws1 b ws2 rest new.
                list_all is_space ws1 \<and> list_all is_space ws2 \<and> (b = CHR ''-'' \<or> b = CHR ''*'') \<and>
                readlines raw ! i = ws1 @ [b] @ ws2 @ ''[ ]'' @ rest \<and>
                split_lines new = (readlines raw)[i := ws1 @ [b] @ ws2 @ ''[x]'' @ rest] \<and>
                readlines new = (readlines raw)[i := ws1 @ [b] @ ws2 @ ''[x]'' @ rest] \<and>
                (cr \<notin> set raw \<longrightarrow>
                   split_lines raw ! i = ws1 @ [b] @ ws2 @ ''[ ]'' @ rest \<and>
                   split_lines new = (split_lines raw)[i := ws1 @ [b] @ ws2 @ ''[x]'' @ rest]) \<and>
                snd (mark_complete ratio item fs)
                  = fs\<lparr>task_plan := Some new, written := TaskPlan # written fs\<rparr>)"
proof (cases "best_match ratio (readlines raw) item")
  case None
  then show ?thesis using assms by (simp add: mark_complete_def)
next
  case (Some i)
  from mark_complete_toggle[OF assms Some] obtain ws1 b ws2 rest new where
    h: "i < length (readlines raw)" "list_all is_space ws1" "list_all is_space ws2"
      "b = CHR ''-'' \<or> b = CHR ''*''"
      "readlines raw ! i = ws1 @ [b] @ ws2 @ ''[ ]'' @ rest"
      "split_lines new = (readlines raw)[i := ws1 @ [b] @ ws2 @ ''[x]'' @ rest]"
      "readlines new = (readlines raw)[i := ws1 @ [b] @ ws2 @ ''[x]'' @ rest]"
      "snd (mark_complete ratio item fs)
         = fs\<lparr>task_plan := Some new, written := TaskPlan # written fs\<rparr>"
    by blast
  have "cr \<notin> set raw \<longrightarrow>
          split_lines raw ! i = ws1 @ [b] @ ws2 @ ''[ ]'' @ rest \<and>
          split_lines new = (split_lines raw)[i := ws1 @ [b] @ ws2 @ ''[x]'' @ rest]"
  proof
    assume "cr \<notin> set raw"
    then have "readlines raw = split_lines raw" by (rule readlines_id)
    with h(5,6) show "split_lines raw ! i = ws1 @ [b] @ ws2 @ ''[ ]'' @ rest \<and>
          split_lines new = (split_lines raw)[i := ws1 @ [b] @ ws2 @ ''[x]'' @ rest]" by simp
  qed
  with h have "i < length (readlines raw) \<and>
             (\<exists>ws1 b ws2 rest new.
                list_all is_space ws1 \<and> list_all is_space ws2 \<and> (b = CHR ''-'' \<or> b = CHR ''*'') \<and>
                readlines raw ! i = ws1 @ [b] @ ws2 @ ''[ ]'' @ rest \<and>
                split_lines new = (readlines raw)[i := ws1 @ [b] @ ws2 @ ''[x]'' @ rest] \<and>
                readlines new = (readlines raw)[i := ws1 @ [b] @ ws2 @ ''[x]'' @ rest] \<and>
                (cr \<notin> set raw \<longrightarrow>
                   split_lines raw ! i = ws1 @ [b] @ ws2 @ ''[ ]'' @ rest \<and>
                   split_lines new = (split_lines raw)[i := ws1 @ [b] @ ws2 @ ''[x]'' @ rest]) \<and>
                snd (mark_complete ratio item fs)
                  = fs\<lparr>task_plan := Some new, written := TaskPlan # written fs\<rparr>)"
    by (intro conjI exI[of _ ws1] exI[of _ b] exI[of _ ws2] exI[of _ rest] exI[of _ new])
  then show ?thesis using Some by simp
qed

theorem mark_complete_frame_witness:
  "task_plan star_files = Some star_plan \<and> cr \<notin> set star_plan \<and>
   task_plan (snd (mark_complete zero_ratio ''fix'' star_files))
     = Some ''## Phases\<newline>  * [x] Fix bug\<newline>- [ ] Other\<newline>'' \<and>
   (\<exists>ws1 b ws2 rest new.
      list_all is_space ws1 \<and> list_all is_space ws2 \<and> (b = CHR ''-'' \<or> b = CHR ''*'') \<and>
      ''  * [ ] Fix bug\<newline>'' = ws1 @ [b] @ ws2 @ ''[ ]'' @ rest \<and>
      split_lines new = [''## Phases\<newline>'', ws1 @ [b] @ ws2 @ ''[x]'' @ rest, ''- [ ] Other\<newline>''] \<and>
      snd (mark_complete zero_ratio ''fix'' star_files)
        = star_files\<lparr>task_plan := Some new, written := TaskPlan # written star_files\<rparr>)"
proof -
  have f: "task_plan star_files = Some star_plan" by (simp add: star_files_def)
  have "case Some (1::nat) of
           None \<Rightarrow> snd (mark_complete zero_ratio ''fix'' star_files) = star_files
         | Some i \<Rightarrow> i < length (readlines star_plan) \<and>
             (\<exists>ws1 b ws2 rest new.
                list_all is_space ws1 \<and> list_all is_space ws2 \<and> (b = CHR ''-'' \<or> b = CHR ''*'') \<and>
                readlines star_plan ! i = ws1 @ [b] @ ws2 @ ''[ ]'' @ rest \<and>
                split_lines new = (readlines star_plan)[i := ws1 @ [b] @ ws2 @ ''[x]'' @ rest] \<and>
                readlines new = (readlines star_plan)[i := ws1 @ [b] @ ws2 @ ''[x]'' @ rest] \<and>
                (cr \<notin> set star_plan \<longrightarrow>
                   split_lines star_plan ! i = ws1 @ [b] @ ws2 @ ''[ ]'' @ rest \<and>
                   split_lines new = (split_lines star_plan)[i := ws1 @ [b] @ ws2 @ ''[x]'' @ rest]) \<and>
                snd (mark_complete zero_ratio ''fix'' star_files)
                  = star_files\<lparr>task_plan := Some new, written := TaskPlan # written star_files\<rparr>)"
    using mark_complete_frame[OF f, of zero_ratio "''fix''"] unfolding star_best .
  then obtain ws1 b ws2 rest new where
    h: "list_all is_space ws1" "list_all is_space ws2" "b = CHR ''-'' \<or> b = CHR ''*''"
      "readlines star_plan ! 1 = ws1 @ [b] @ ws2 @ ''[ ]'' @ rest"
      "split_lines new = (readlines star_plan)[1 := ws1 @ [b] @ ws2 @ ''[x]'' @ rest]"
      "snd (mark_complete zero_ratio ''fix'' star_files)
         = star_files\<lparr>task_plan := Some new, written := TaskPlan # written star_files\<rparr>"
    unfolding option.case by blast
  have l: "''  * [ ] Fix bug\<newline>'' = ws1 @ [b] @ ws2 @ ''[ ]'' @ rest"
    using h(4) unfolding star_lines by simp
  have n: "split_lines new = [''## Phases\<newline>'', ws1 @ [b] @ ws2 @ ''[x]'' @ rest, ''- [ ] Other\<newline>'']"
    using h(5) unfolding star_lines by simp
  have "\<exists>ws1 b ws2 rest new.
      list_all is_space ws1 \<and> list_all is_space ws2 \<and> (b = CHR ''-'' \<or> b = CHR ''*'') \<and>
      ''  * [ ] Fix bug\<newline>'' = ws1 @ [b] @ ws2 @ ''[ ]'' @ rest \<and>
      split_lines new = [''## Phases\<newline>'', ws1 @ [b] @ ws2 @ ''[x]'' @ rest, ''- [ ] Other\<newline>''] \<and>
      snd (mark_complete zero_ratio ''fix'' star_files)
        = star_files\<lparr>task_plan := Some new, written := TaskPlan # written star_files\<rparr>"
    using h(1,2,3,6) l n
    by (intro exI[of _ ws1] exI[of _ b] exI[of _ ws2] exI[of _ rest] exI[of _ new] conjI)
  then show ?thesis using f star_marked star_no_cr by simp
qed

text \<open>
  C4 as stated says that every line other than the matched one is unchanged in the written
  document. In a document whose lines end with CR LF the call that marks \<open>c\<close> writes every
  line with a line feed alone: the first two lines, which were not matched, change on disk.
\<close>

theorem mark_complete_rewrites_crlf:
  "task_plan crlf_files = Some crlf_plan \<and>
   split_lines crlf_plan = [''# T'' @ [cr, nl], ''- [ ] keep'' @ [cr, nl], ''- [ ] c'' @ [cr, nl]] \<and>
   task_plan (snd (mark_complete zero_ratio ''c'' crlf_files))
     = Some ''# T\<newline>- [ ] keep\<newline>- [x] c\<newline>'' \<and>
   split_lines ''# T\<newline>- [ ] keep\<newline>- [x] c\<newline>'' = [''# T\<newline>'', ''- [ ] keep\<newline>'', ''- [x] c\<newline>''] \<and>
   ''# T\<newline>'' \<noteq> ''# T'' @ [cr, nl] \<and> ''- [ ] keep\<newline>'' \<noteq> ''- [ ] keep'' @ [cr, nl]"
  using crlf_marked crlf_lines by (simp add: crlf_files_def)

end
